theory Spec2Isabelle
  imports Complex_Main
begin

section \<open>Shared data model\<close>

text \<open>
  The compression method enumeration of the library. \<open>NoCompression\<close> is the tag of a
  factorization that was not produced by one of the four algorithms.
\<close>

datatype CompressionMethod = Svd | AcaFull | AcaPartial | AcaPlus | NoCompression

text \<open>
  Failures of the C++ code are values of the model: a failed \<open>assert\<close> or
  \<open>HMAT_ASSERT\<close> aborts, and a read or write outside a buffer is undefined behaviour.
\<close>

datatype error = AssertionFailed | OutOfRange

definition bind_err :: "error + 'a \<Rightarrow> ('a \<Rightarrow> error + 'b) \<Rightarrow> error + 'b" where
  "bind_err r f = (case r of Inl e \<Rightarrow> Inl e | Inr x \<Rightarrow> f x)"

section \<open>Admissibility (admissibility.cpp, admissibility.hpp)\<close>

text \<open>
  A cluster tree node as far as \<open>isAdmissible\<close> reads it: the index set \<open>data\<close> (one
  entry per degree of freedom, \<open>data.size()\<close> is its length) and the mutable side-channel
  pointer \<open>admissibilityAlgoData_\<close>, \<open>None\<close> for \<open>NULL\<close>, that caches the bounding box.
  The class \<open>AxisAlignedBoundingBox\<close> is declared outside the files at hand; its
  constructor, \<open>diameter\<close> and \<open>distanceTo\<close> are parameters of the model.
\<close>

record ('p, 'box) ClusterTree =
  data :: "'p list"
  admissibilityAlgoData :: "'box option"

record ('p, 'box) BoundingBoxOps =
  newBox :: "'p list \<Rightarrow> 'box"
  diameter :: "'box \<Rightarrow> real"
  distanceTo :: "'box \<Rightarrow> 'box \<Rightarrow> real"

text \<open>The private fields of \<open>StandardAdmissibilityCondition\<close> (admissibility.hpp).\<close>

record StandardAdmissibilityCondition =
  eta :: real
  maxElementsPerBlock :: nat
  maxElementsPerBlockAca :: nat
  always :: bool

text \<open>
  Modelled from the spec: the body of \<open>setAlways\<close> is not in admissibility.cpp; the header
  documents it as forcing every small enough block to be admissible, so it stores the flag.
\<close>

definition setAlways :: "bool \<Rightarrow> StandardAdmissibilityCondition \<Rightarrow> StandardAdmissibilityCondition" where
  "setAlways b c = c\<lparr>always := b\<rparr>"

definition setEta :: "real \<Rightarrow> StandardAdmissibilityCondition \<Rightarrow> StandardAdmissibilityCondition" where
  "setEta e c = c\<lparr>eta := e\<rparr>"

text \<open>
  The lazily cached bounding box of a node: the cached one when the side channel is set,
  a new one built from the node's data otherwise; the node comes back with the cache set.
\<close>

definition cachedBox ::
  "('p, 'box) BoundingBoxOps \<Rightarrow> ('p, 'box) ClusterTree \<Rightarrow> 'box \<times> ('p, 'box) ClusterTree" where
  "cachedBox ops t =
     (case admissibilityAlgoData t of
        None \<Rightarrow> (let b = newBox ops (data t) in (b, t\<lparr>admissibilityAlgoData := Some b\<rparr>))
      | Some b \<Rightarrow> (b, t))"

text \<open>
  \<open>StandardAdmissibilityCondition::isAdmissible\<close>. The first argument is the global
  \<open>HMatSettings::compressionMethod\<close>. The element count is a product of two \<open>int\<close> sizes
  in \<open>size_t\<close>, which cannot wrap on a 64-bit target, so it is a product of naturals.
  The result is the returned boolean with the two nodes, whose caches may have been filled.
\<close>

definition isAdmissible ::
  "('p, 'box) BoundingBoxOps \<Rightarrow> CompressionMethod \<Rightarrow> StandardAdmissibilityCondition \<Rightarrow>
   ('p, 'box) ClusterTree \<Rightarrow> ('p, 'box) ClusterTree \<Rightarrow>
   bool \<times> ('p, 'box) ClusterTree \<times> ('p, 'box) ClusterTree" where
  "isAdmissible ops m c rows cols =
     (let isFullAlgo = \<not> (m = AcaPartial \<or> m = AcaPlus) in
      if isFullAlgo \<and> length (data rows) * length (data cols) > maxElementsPerBlock c
      then (False, rows, cols)
      else if length (data rows) < 2 \<or> length (data cols) < 2
      then (False, rows, cols)
      else
        (let (rows_bbox, rows') = cachedBox ops rows;
             (cols_bbox, cols') = cachedBox ops cols
         in (min (diameter ops rows_bbox) (diameter ops cols_bbox)
               \<le> eta c * distanceTo ops rows_bbox cols_bbox,
             rows', cols')))"

text \<open>The box \<open>isAdmissible\<close> works with for a node.\<close>

definition boxOf :: "('p, 'box) BoundingBoxOps \<Rightarrow> ('p, 'box) ClusterTree \<Rightarrow> 'box" where
  "boxOf ops t = fst (cachedBox ops t)"

text \<open>
  The size gates as the specification words them: both clusters hold at least two indices
  and, for the full-matrix methods \<open>Svd\<close> and \<open>AcaFull\<close>, the block has at most
  \<open>maxElementsPerBlock\<close> elements.
\<close>

definition sizeGatesPass ::
  "CompressionMethod \<Rightarrow> StandardAdmissibilityCondition \<Rightarrow>
   ('p, 'box) ClusterTree \<Rightarrow> ('p, 'box) ClusterTree \<Rightarrow> bool" where
  "sizeGatesPass m c rows cols \<longleftrightarrow>
     2 \<le> length (data rows) \<and> 2 \<le> length (data cols) \<and>
     ((m = Svd \<or> m = AcaFull) \<longrightarrow>
        length (data rows) * length (data cols) \<le> maxElementsPerBlock c)"

text \<open>The Hackbusch criterion on the boxes of the two nodes.\<close>

definition hackbusch ::
  "('p, 'box) BoundingBoxOps \<Rightarrow> StandardAdmissibilityCondition \<Rightarrow>
   ('p, 'box) ClusterTree \<Rightarrow> ('p, 'box) ClusterTree \<Rightarrow> bool" where
  "hackbusch ops c rows cols \<longleftrightarrow>
     min (diameter ops (boxOf ops rows)) (diameter ops (boxOf ops cols))
       \<le> eta c * distanceTo ops (boxOf ops rows) (boxOf ops cols)"

text \<open>
  A concrete geometry for examples: a box is the pair (diameter, position on a line), and
  the distance of two boxes is the distance of their positions.
\<close>

definition lineOps :: "(nat, real \<times> real) BoundingBoxOps" where
  "lineOps = \<lparr> newBox = (\<lambda>ps. (0, 0)), diameter = fst,
               distanceTo = (\<lambda>a b. \<bar>snd a - snd b\<bar>) \<rparr>"

definition node :: "nat \<Rightarrow> real \<Rightarrow> real \<Rightarrow> (nat, real \<times> real) ClusterTree" where
  "node n d x = \<lparr> data = [0..<n], admissibilityAlgoData = Some (d, x) \<rparr>"

section \<open>Scalars, vectors and dense matrices (full_matrix.cpp)\<close>

text \<open>
  The engine is a template over four scalar types. The model computes in exact arithmetic
  over the complex numbers, which contain the values of the two real types; rounding is
  not modelled.
\<close>

type_synonym Vec = "complex list"

text \<open>
  \<open>squaredNorm\<close>: \<open>x * x\<close> for a real type, and for a complex one \<open>std::norm\<close>, the sum
  of the squares of the real and the imaginary part.
\<close>

definition squaredNorm :: "complex \<Rightarrow> real" where
  "squaredNorm x = Re x * Re x + Im x * Im x"

text \<open>Checked element access: reading past the end of a buffer is undefined behaviour.\<close>

definition elem_at :: "'a list \<Rightarrow> nat \<Rightarrow> error + 'a" where
  "elem_at xs i = (if i < length xs then Inr (xs ! i) else Inl OutOfRange)"

definition set_at :: "'a list \<Rightarrow> nat \<Rightarrow> 'a \<Rightarrow> error + 'a list" where
  "set_at xs i x = (if i < length xs then Inr (xs[i := x]) else Inl OutOfRange)"

text \<open>\<open>slice xs off n\<close>: the \<open>n\<close> elements of a buffer that start at offset \<open>off\<close>.\<close>

definition slice :: "'a list \<Rightarrow> nat \<Rightarrow> nat \<Rightarrow> error + 'a list" where
  "slice xs off n = (if off + n \<le> length xs then Inr (take n (drop off xs)) else Inl OutOfRange)"

text \<open>\<open>memcpy\<close> of the whole of \<open>src\<close> into \<open>dst\<close> at offset \<open>off\<close>.\<close>

definition write_at :: "'a list \<Rightarrow> nat \<Rightarrow> 'a list \<Rightarrow> error + 'a list" where
  "write_at dst off src =
     (if off + length src \<le> length dst
      then Inr (take off dst @ src @ drop (off + length src) dst)
      else Inl OutOfRange)"

text \<open>A counting \<open>for\<close> loop over the given indices whose body may fail.\<close>

fun for_err :: "nat list \<Rightarrow> (nat \<Rightarrow> 's \<Rightarrow> error + 's) \<Rightarrow> 's \<Rightarrow> error + 's" where
  "for_err [] body s = Inr s"
| "for_err (i # is) body s = bind_err (body i s) (for_err is body)"

text \<open>
  Modelled from the spec: the BLAS wrappers \<open>proxy_cblas::i_amax\<close>, \<open>axpy\<close>, \<open>scal\<close>,
  \<open>ger\<close> and \<open>proxy_cblas_convenience::dot_c\<close> are declared outside the files at hand.
  \<open>i_amax\<close> is the zero-based index of the first entry of largest absolute value, where
  BLAS measures a complex entry by \<open>|Re| + |Im|\<close>, and 0 on an empty vector; \<open>dot_c\<close>
  conjugates its left argument.
\<close>

definition cabs1 :: "complex \<Rightarrow> real" where
  "cabs1 z = \<bar>Re z\<bar> + \<bar>Im z\<bar>"

fun amax_from :: "Vec \<Rightarrow> nat \<Rightarrow> nat \<Rightarrow> real \<Rightarrow> nat" where
  "amax_from [] i best bmax = best"
| "amax_from (x # xs) i best bmax =
     (if cabs1 x > bmax then amax_from xs (Suc i) i (cabs1 x)
      else amax_from xs (Suc i) best bmax)"

definition i_amax :: "Vec \<Rightarrow> nat" where
  "i_amax v = (case v of [] \<Rightarrow> 0 | x # xs \<Rightarrow> amax_from xs 1 0 (cabs1 x))"

definition dot_c :: "Vec \<Rightarrow> Vec \<Rightarrow> complex" where
  "dot_c x y = sum_list (map2 (\<lambda>a b. cnj a * b) x y)"

text \<open>The methods of \<open>Vector\<close>. A new \<open>Vector(n)\<close> is zero-initialised by \<open>calloc\<close>.\<close>

definition newVector :: "nat \<Rightarrow> Vec" where
  "newVector n = replicate n 0"

definition clear :: "Vec \<Rightarrow> Vec" where
  "clear v = replicate (length v) 0"

definition absoluteMaxIndex :: "Vec \<Rightarrow> nat" where
  "absoluteMaxIndex v = i_amax v"

text \<open>\<open>y.axpy(alpha, x)\<close>: \<open>y := y + alpha * x\<close>, after \<open>assert(rows == x->rows)\<close>.\<close>

definition axpy :: "complex \<Rightarrow> Vec \<Rightarrow> Vec \<Rightarrow> error + Vec" where
  "axpy alpha x y =
     (if length y = length x then Inr (map2 (\<lambda>yi xi. yi + alpha * xi) y x)
      else Inl AssertionFailed)"

definition dot :: "Vec \<Rightarrow> Vec \<Rightarrow> error + complex" where
  "dot x y = (if length x = length y then Inr (dot_c x y) else Inl AssertionFailed)"

definition normSqr :: "Vec \<Rightarrow> real" where
  "normSqr v = Re (dot_c v v)"

definition scale :: "complex \<Rightarrow> Vec \<Rightarrow> Vec" where
  "scale alpha v = (if alpha = 0 then replicate (length v) 0 else map (\<lambda>x. alpha * x) v)"

text \<open>\<open>isZero\<close> of compression.cpp: the entry at the absolute-max index is zero.\<close>

definition isZero :: "Vec \<Rightarrow> error + bool" where
  "isZero v = bind_err (elem_at v (absoluteMaxIndex v)) (\<lambda>x. Inr (x = 0))"

text \<open>
  A dense column-major matrix: element \<open>(i, j)\<close> is at offset \<open>i + j * lda\<close> of the
  storage \<open>m\<close>. A matrix built by \<open>FullMatrix(rows, cols)\<close> owns zeroed storage with
  \<open>lda = rows\<close>; \<open>FullMatrix(m, rows, cols, lda)\<close> wraps storage and asserts \<open>lda \<ge> rows\<close>.
\<close>

record FullMatrix =
  fm_rows :: nat
  fm_cols :: nat
  fm_lda :: nat
  fm_m :: "complex list"

definition newFullMatrix :: "nat \<Rightarrow> nat \<Rightarrow> FullMatrix" where
  "newFullMatrix r c = \<lparr> fm_rows = r, fm_cols = c, fm_lda = r, fm_m = replicate (r * c) 0 \<rparr>"

definition wrapFullMatrix :: "complex list \<Rightarrow> nat \<Rightarrow> nat \<Rightarrow> nat \<Rightarrow> error + FullMatrix" where
  "wrapFullMatrix st r c ld =
     (if ld \<ge> r then Inr \<lparr> fm_rows = r, fm_cols = c, fm_lda = ld, fm_m = st \<rparr>
      else Inl AssertionFailed)"

definition Zero :: "nat \<Rightarrow> nat \<Rightarrow> FullMatrix" where
  "Zero r c = newFullMatrix r c"

definition get :: "FullMatrix \<Rightarrow> nat \<Rightarrow> nat \<Rightarrow> error + complex" where
  "get M i j = elem_at (fm_m M) (i + j * fm_lda M)"

definition put :: "FullMatrix \<Rightarrow> nat \<Rightarrow> nat \<Rightarrow> complex \<Rightarrow> error + FullMatrix" where
  "put M i j x = bind_err (set_at (fm_m M) (i + j * fm_lda M) x) (\<lambda>st. Inr (M\<lparr>fm_m := st\<rparr>))"

text \<open>
  \<open>FullMatrix::copy\<close> into a new matrix: one \<open>memcpy\<close> when \<open>lda = rows\<close>, a \<open>memcpy\<close> per
  column otherwise.
\<close>

definition copy :: "FullMatrix \<Rightarrow> error + FullMatrix" where
  "copy M =
     (let result = newFullMatrix (fm_rows M) (fm_cols M) in
      if fm_lda M = fm_rows M then
        bind_err (slice (fm_m M) 0 (fm_rows M * fm_cols M)) (\<lambda>src.
        bind_err (write_at (fm_m result) 0 src) (\<lambda>st. Inr (result\<lparr>fm_m := st\<rparr>)))
      else
        for_err [0..<fm_cols M]
          (\<lambda>col res.
             bind_err (slice (fm_m M) (fm_lda M * col) (fm_rows M)) (\<lambda>src.
             bind_err (write_at (fm_m res) (fm_rows res * col) src) (\<lambda>st.
             Inr (res\<lparr>fm_m := st\<rparr>))))
          result)"

text \<open>\<open>FullMatrix::copyAndTranspose\<close>: \<open>result(j, i) = get(i, j)\<close>.\<close>

definition copyAndTranspose :: "FullMatrix \<Rightarrow> error + FullMatrix" where
  "copyAndTranspose M =
     for_err [0..<fm_rows M]
       (\<lambda>i. for_err [0..<fm_cols M]
          (\<lambda>j res. bind_err (get M i j) (\<lambda>x. put res j i x)))
       (newFullMatrix (fm_cols M) (fm_rows M))"

text \<open>
  \<open>ger(rows, cols, alpha, x, y, a, lda)\<close>: the unconjugated rank-one update
  \<open>a(i, j) := a(i, j) + alpha * x[i] * y[j]\<close> of column-major storage.
\<close>

definition ger ::
  "nat \<Rightarrow> nat \<Rightarrow> complex \<Rightarrow> Vec \<Rightarrow> Vec \<Rightarrow> complex list \<Rightarrow> nat \<Rightarrow> error + complex list" where
  "ger r c alpha x y a ld =
     for_err [0..<c]
       (\<lambda>j. for_err [0..<r]
          (\<lambda>i st.
             bind_err (elem_at x i) (\<lambda>xi.
             bind_err (elem_at y j) (\<lambda>yj.
             bind_err (elem_at st (i + j * ld)) (\<lambda>old.
             set_at st (i + j * ld) (old + alpha * xi * yj))))))
       a"

section \<open>The low-rank factorization\<close>

text \<open>
  \<open>RkMatrix\<close>: the factors \<open>a\<close> and \<open>b\<close> (\<open>None\<close> for \<open>NULL\<close>), the row and column index
  sets, of which the engine only uses the sizes, and the method tag.
\<close>

record RkMatrix =
  rk_a :: "FullMatrix option"
  rk_rows :: nat
  rk_b :: "FullMatrix option"
  rk_cols :: nat
  rk_method :: CompressionMethod

definition newRkMatrix ::
  "FullMatrix option \<Rightarrow> nat \<Rightarrow> FullMatrix option \<Rightarrow> nat \<Rightarrow> CompressionMethod \<Rightarrow> RkMatrix" where
  "newRkMatrix a r b c meth =
     \<lparr> rk_a = a, rk_rows = r, rk_b = b, rk_cols = c, rk_method = meth \<rparr>"

text \<open>
  Modelled from the spec: \<open>RkMatrix::rank\<close> is declared in rk_matrix.hpp; an empty
  factorization has rank 0, every other one the column count of \<open>a\<close>.
\<close>

definition rank :: "RkMatrix \<Rightarrow> nat" where
  "rank rk = (case rk_a rk of None \<Rightarrow> 0 | Some a \<Rightarrow> fm_cols a)"

definition isEmptyRk :: "RkMatrix \<Rightarrow> bool" where
  "isEmptyRk rk \<longleftrightarrow> rk_a rk = None \<and> rk_b rk = None"

section \<open>The kernel-assembly adapter (compression.cpp)\<close>

datatype hmat_block_t = hmat_block_full | hmat_block_null | hmat_block_sparse

record hmat_block_info_t =
  block_type :: hmat_block_t
  is_null_row :: "nat \<Rightarrow> bool"
  is_null_col :: "nat \<Rightarrow> bool"

text \<open>
  The user kernel as the adapter sees it for one pair of clusters: the block info that
  \<open>prepareBlock\<close> fills, the entries that the \<open>getRow\<close> and \<open>getCol\<close> callbacks write
  into the vector they are handed (\<open>f_getRow i j\<close> is entry \<open>j\<close> of row \<open>i\<close>,
  \<open>f_getCol j i\<close> is entry \<open>i\<close> of column \<open>j\<close>; a callback overwrites every entry), and
  the dense block that \<open>assemble\<close> returns.
\<close>

record Function =
  f_prepareBlock :: hmat_block_info_t
  f_getRow :: "nat \<Rightarrow> nat \<Rightarrow> complex"
  f_getCol :: "nat \<Rightarrow> nat \<Rightarrow> complex"
  f_assemble :: FullMatrix

text \<open>\<open>ClusterAssemblyFunction\<close>; the clusters are represented by their sizes.\<close>

record ClusterAssemblyFunction =
  caf_f :: Function
  caf_rows :: nat
  caf_cols :: nat
  caf_info :: hmat_block_info_t

definition newClusterAssemblyFunction :: "Function \<Rightarrow> nat \<Rightarrow> nat \<Rightarrow> ClusterAssemblyFunction" where
  "newClusterAssemblyFunction f r c =
     \<lparr> caf_f = f, caf_rows = r, caf_cols = c, caf_info = f_prepareBlock f \<rparr>"

text \<open>
  The adapter's \<open>getRow\<close> and \<open>getCol\<close>, with the list of the kernel callbacks they invoke.
\<close>

datatype kernel_call = GetRowCall nat | GetColCall nat | AssembleCall

definition getRow_traced ::
  "ClusterAssemblyFunction \<Rightarrow> nat \<Rightarrow> Vec \<Rightarrow> Vec \<times> kernel_call list" where
  "getRow_traced block index result =
     (if block_type (caf_info block) \<noteq> hmat_block_sparse
         \<or> \<not> is_null_row (caf_info block) index
      then (map (f_getRow (caf_f block) index) [0..<length result], [GetRowCall index])
      else (result, []))"

definition getCol_traced ::
  "ClusterAssemblyFunction \<Rightarrow> nat \<Rightarrow> Vec \<Rightarrow> Vec \<times> kernel_call list" where
  "getCol_traced block index result =
     (if block_type (caf_info block) \<noteq> hmat_block_sparse
         \<or> \<not> is_null_col (caf_info block) index
      then (map (f_getCol (caf_f block) index) [0..<length result], [GetColCall index])
      else (result, []))"

definition getRow :: "ClusterAssemblyFunction \<Rightarrow> nat \<Rightarrow> Vec \<Rightarrow> Vec" where
  "getRow block index result = fst (getRow_traced block index result)"

definition getCol :: "ClusterAssemblyFunction \<Rightarrow> nat \<Rightarrow> Vec \<Rightarrow> Vec" where
  "getCol block index result = fst (getCol_traced block index result)"

definition assemble :: "ClusterAssemblyFunction \<Rightarrow> FullMatrix" where
  "assemble block =
     (if block_type (caf_info block) \<noteq> hmat_block_null then f_assemble (caf_f block)
      else Zero (caf_rows block) (caf_cols block))"

text \<open>An adapter over a sparse block all of whose rows and columns are flagged null.\<close>

definition nullHintBlock :: ClusterAssemblyFunction where
  "nullHintBlock =
     newClusterAssemblyFunction
       \<lparr> f_prepareBlock = \<lparr> block_type = hmat_block_sparse,
                             is_null_row = (\<lambda>i. True), is_null_col = (\<lambda>j. True) \<rparr>,
         f_getRow = (\<lambda>i j. 1), f_getCol = (\<lambda>j i. 1),
         f_assemble = newFullMatrix 1 1 \<rparr> 1 1"

text \<open>
  A kernel that samples one matrix: the callbacks and \<open>assemble\<close> all read the entries
  \<open>A i j\<close> of an \<open>r\<close> by \<open>c\<close> block, which is dense, so no row or column is skipped.
\<close>

definition matrixKernel :: "nat \<Rightarrow> nat \<Rightarrow> (nat \<Rightarrow> nat \<Rightarrow> complex) \<Rightarrow> Function" where
  "matrixKernel r c A =
     \<lparr> f_prepareBlock = \<lparr> block_type = hmat_block_full,
                           is_null_row = (\<lambda>i. False), is_null_col = (\<lambda>j. False) \<rparr>,
       f_getRow = (\<lambda>i j. A i j),
       f_getCol = (\<lambda>j i. A i j),
       f_assemble = \<lparr> fm_rows = r, fm_cols = c, fm_lda = r,
                       fm_m = concat (map (\<lambda>j. map (\<lambda>i. A i j) [0..<r]) [0..<c]) \<rparr> \<rparr>"

definition matrixBlock :: "nat \<Rightarrow> nat \<Rightarrow> (nat \<Rightarrow> nat \<Rightarrow> complex) \<Rightarrow> ClusterAssemblyFunction" where
  "matrixBlock r c A = newClusterAssemblyFunction (matrixKernel r c A) r c"

text \<open>The entries of a matrix given by the list of its rows, zero outside.\<close>

definition entries :: "complex list list \<Rightarrow> nat \<Rightarrow> nat \<Rightarrow> complex" where
  "entries rws i j = (if i < length rws \<and> j < length (rws ! i) then rws ! i ! j else 0)"

section \<open>The compression engine (compression.cpp)\<close>

lemma bind_err_cong [fundef_cong]:
  "r = r' \<Longrightarrow> (\<And>x. r' = Inr x \<Longrightarrow> f x = f' x) \<Longrightarrow> bind_err r f = bind_err r' f'"
  by (simp add: bind_err_def split: sum.splits)

text \<open>
  The global approximation parameters \<open>RkMatrix::approx\<close>: the tolerance
  \<open>assemblyEpsilon\<close> and the fixed rank \<open>k\<close> (0 when the rank is chosen by the tolerance).
\<close>

record RkApproximationControl =
  assemblyEpsilon :: real
  approx_k :: int

text \<open>
  \<open>truncatedSvd\<close> (lapack_operations.hpp) and \<open>RkApproximationControl::findK\<close>
  (rk_matrix.hpp) are declared outside the files at hand and are parameters of the model.
  \<open>truncatedSvd\<close> returns the LAPACK status with the factors \<open>u\<close>, \<open>sigma\<close> and \<open>vt\<close>.
\<close>

record SvdBackend =
  truncatedSvd :: "FullMatrix \<Rightarrow> int \<times> FullMatrix \<times> real list \<times> FullMatrix"
  findK :: "RkApproximationControl \<Rightarrow> real list \<Rightarrow> nat \<Rightarrow> real \<Rightarrow> nat"

subsection \<open>Helpers\<close>

text \<open>
  \<open>updateRow\<close>: \<open>rowVec := rowVec - cols[l][row] * rows[l]\<close> for \<open>l < k\<close>;
  \<open>updateCol\<close> is the same function with the two families exchanged.
\<close>

definition updateRow :: "Vec \<Rightarrow> nat \<Rightarrow> Vec list \<Rightarrow> Vec list \<Rightarrow> nat \<Rightarrow> error + Vec" where
  "updateRow rowVec row rws cls k =
     for_err [0..<k]
       (\<lambda>l rv.
          bind_err (elem_at cls l) (\<lambda>c.
          bind_err (elem_at c row) (\<lambda>x.
          bind_err (elem_at rws l) (\<lambda>r.
          axpy (- 1 * x) r rv))))
       rowVec"

definition updateCol :: "Vec \<Rightarrow> nat \<Rightarrow> Vec list \<Rightarrow> Vec list \<Rightarrow> nat \<Rightarrow> error + Vec" where
  "updateCol colVec col cls rws k = updateRow colVec col cls rws k"

text \<open>
  \<open>findMax\<close>: the position of the first entry of largest squared modulus, scanning column
  by column; it reads entry \<open>(0, 0)\<close> before the scan.
\<close>

definition findMax :: "FullMatrix \<Rightarrow> error + nat \<times> nat" where
  "findMax M =
     bind_err (get M 0 0) (\<lambda>x0.
     bind_err
       (for_err [0..<fm_cols M]
          (\<lambda>col. for_err [0..<fm_rows M]
             (\<lambda>row (i, j, maxNorm).
                bind_err (get M row col) (\<lambda>x.
                  if squaredNorm x > maxNorm then Inr (row, col, squaredNorm x)
                  else Inr (i, j, maxNorm))))
          (0, 0, squaredNorm x0))
       (\<lambda>(i, j, maxNorm). Inr (i, j)))"

text \<open>
  \<open>findCol\<close>: the first free column whose vector is not zero; every column it visits is
  marked used. The result is the index (\<open>None\<close> for \<open>-1\<close>) with the updated free list and
  the vector last fetched.
\<close>

function findCol_from ::
  "ClusterAssemblyFunction \<Rightarrow> nat \<Rightarrow> bool list \<Rightarrow> Vec \<Rightarrow> error + (nat option \<times> bool list \<times> Vec)" where
  "findCol_from block i colFree col =
     (if i < length colFree then
        (if colFree ! i then
           (let col' = getCol block i (clear col);
                colFree' = colFree[i := False]
            in bind_err (isZero col') (\<lambda>z.
                 if \<not> z then Inr (Some i, colFree', col')
                 else findCol_from block (Suc i) colFree' col'))
         else findCol_from block (Suc i) colFree col)
      else Inr (None, colFree, col))"
  by pat_completeness auto
termination
  by (relation "measure (\<lambda>(block, i, colFree, col). length colFree - i)") auto

definition findCol ::
  "ClusterAssemblyFunction \<Rightarrow> bool list \<Rightarrow> Vec \<Rightarrow> error + (nat option \<times> bool list \<times> Vec)" where
  "findCol block colFree col = findCol_from block 0 colFree col"

text \<open>
  The scan of \<open>findMinRow\<close> and \<open>findMinCol\<close>: the first free index of smallest squared
  modulus in the reference vector, \<open>None\<close> (for \<open>-1\<close>) when no index is free. The initial
  bound \<open>DBL_MAX\<close> lies above every squared modulus. The free list and the reference
  vector have the same length, the loop bound.
\<close>

definition scanMin :: "bool list \<Rightarrow> Vec \<Rightarrow> nat option" where
  "scanMin free ref =
     map_option fst
       (foldl (\<lambda>best i.
                 if free ! i then
                   (let norm2 = squaredNorm (ref ! i) in
                    case best of
                      None \<Rightarrow> Some (i, norm2)
                    | Some (i_ref, minNorm2) \<Rightarrow>
                        if norm2 < minNorm2 then Some (i, norm2) else best)
                 else best)
          None [0..<length ref])"

definition freeCount :: "bool list \<Rightarrow> nat" where
  "freeCount free = length (filter (\<lambda>b. b) free)"

lemma scanMin_fold_free:
  "foldl (\<lambda>best i.
            if free ! i then
              (let norm2 = squaredNorm (ref ! i) in
               case best of
                 None \<Rightarrow> Some (i, norm2)
               | Some (i_ref, minNorm2) \<Rightarrow>
                   if norm2 < minNorm2 then Some (i, norm2) else best)
            else best) b0 xs = Some (i, n) \<Longrightarrow>
   (\<And>j m. b0 = Some (j, m) \<Longrightarrow> free ! j) \<Longrightarrow> free ! i"
proof (induction xs arbitrary: b0)
  case Nil
  then show ?case by simp
next
  case (Cons x xs)
  show ?case
    by (rule Cons.IH [OF Cons.prems(1) [simplified]])
       (auto simp: Let_def split: if_splits option.splits dest: Cons.prems(2))
qed

lemma scanMin_free: "scanMin free ref = Some i \<Longrightarrow> free ! i"
  unfolding scanMin_def
  by (auto dest!: scanMin_fold_free)

lemma freeCount_update:
  "i < length free \<Longrightarrow> free ! i \<Longrightarrow> freeCount (free[i := False]) < freeCount free"
proof (induction free arbitrary: i)
  case Nil
  then show ?case by simp
next
  case (Cons a free)
  then show ?case
    by (cases i) (auto simp: freeCount_def)
qed

lemma freeCount_update_le: "freeCount (free[i := False]) \<le> freeCount free"
proof (induction free arbitrary: i)
  case Nil
  then show ?case by simp
next
  case (Cons a free)
  then show ?case
    by (cases i) (auto simp: freeCount_def le_SucI)
qed

text \<open>
  \<open>findMinRow\<close>: fetch and deflate the free row of smallest reference entry, mark it
  used, and repeat until the deflated row is not zero or no row is free.
\<close>

function findMinRow ::
  "ClusterAssemblyFunction \<Rightarrow> bool list \<Rightarrow> Vec list \<Rightarrow> Vec list \<Rightarrow> Vec \<Rightarrow> Vec \<Rightarrow>
   error + (nat option \<times> bool list \<times> Vec)" where
  "findMinRow block rowFree aCols bCols aRef row =
     (case scanMin rowFree aRef of
        None \<Rightarrow> Inr (None, rowFree, row)
      | Some i_ref \<Rightarrow>
          bind_err (updateRow (getRow block i_ref (clear row)) i_ref bCols aCols (length aCols))
            (\<lambda>row'.
          bind_err (isZero row') (\<lambda>z.
          bind_err (set_at rowFree i_ref False) (\<lambda>rowFree'.
            if \<not> z then Inr (Some i_ref, rowFree', row')
            else findMinRow block rowFree' aCols bCols aRef row'))))"
  by pat_completeness auto
termination
  by (relation "measure (\<lambda>(block, rowFree, aCols, bCols, aRef, row). freeCount rowFree)")
     (auto simp: set_at_def freeCount_update dest: scanMin_free split: if_splits)

function findMinCol ::
  "ClusterAssemblyFunction \<Rightarrow> bool list \<Rightarrow> Vec list \<Rightarrow> Vec list \<Rightarrow> Vec \<Rightarrow> Vec \<Rightarrow>
   error + (nat option \<times> bool list \<times> Vec)" where
  "findMinCol block colFree aCols bCols bRef col =
     (case scanMin colFree bRef of
        None \<Rightarrow> Inr (None, colFree, col)
      | Some j_ref \<Rightarrow>
          bind_err (updateCol (getCol block j_ref (clear col)) j_ref aCols bCols (length bCols))
            (\<lambda>col'.
          bind_err (isZero col') (\<lambda>z.
          bind_err (set_at colFree j_ref False) (\<lambda>colFree'.
            if \<not> z then Inr (Some j_ref, colFree', col')
            else findMinCol block colFree' aCols bCols bRef col'))))"
  by pat_completeness auto
termination
  by (relation "measure (\<lambda>(block, colFree, aCols, bCols, bRef, col). freeCount colFree)")
     (auto simp: set_at_def freeCount_update dest: scanMin_free split: if_splits)

text \<open>
  The running estimate's cross terms as ACA-partial and ACA+ compute them:
  \<open>sum over l < k of Re (dot(a, aCols[l]) * dot(b, bCols[l]))\<close>.
\<close>

definition crossTerms :: "Vec \<Rightarrow> Vec \<Rightarrow> Vec list \<Rightarrow> Vec list \<Rightarrow> nat \<Rightarrow> error + real" where
  "crossTerms a b aCols bCols k =
     for_err [0..<k]
       (\<lambda>l acc.
          bind_err (elem_at aCols l) (\<lambda>a_l.
          bind_err (elem_at bCols l) (\<lambda>b_l.
          bind_err (dot a a_l) (\<lambda>da.
          bind_err (dot b b_l) (\<lambda>db.
          Inr (acc + Re (da * db)))))))
       0"

text \<open>
  The final copy of the \<open>k\<close> stored vectors into the columns of a new \<open>n\<close> by \<open>k\<close> matrix.
\<close>

definition buildFactor :: "nat \<Rightarrow> nat \<Rightarrow> Vec list \<Rightarrow> error + FullMatrix" where
  "buildFactor n k vs =
     for_err [0..<k]
       (\<lambda>i A.
          bind_err (elem_at vs i) (\<lambda>v.
          bind_err (slice v 0 (fm_rows A)) (\<lambda>src.
          bind_err (write_at (fm_m A) (i * fm_rows A) src) (\<lambda>st.
          Inr (A\<lparr>fm_m := st\<rparr>)))))
       (newFullMatrix n k)"

subsection \<open>SVD compression\<close>

text \<open>
  The zero test of \<open>compressMatrix\<close>: column \<open>col\<close> is read as the \<open>rows\<close> elements at
  offset \<open>rows * col\<close> of the storage.
\<close>

function zeroMatrix_from :: "FullMatrix \<Rightarrow> nat \<Rightarrow> error + bool" where
  "zeroMatrix_from M col =
     (if col < fm_cols M then
        bind_err (slice (fm_m M) (fm_rows M * col) (fm_rows M)) (\<lambda>v.
        bind_err (isZero v) (\<lambda>z.
          if z then zeroMatrix_from M (Suc col) else Inr False))
      else Inr True)"
  by pat_completeness auto
termination
  by (relation "measure (\<lambda>(M, col). fm_cols M - col)") auto

text \<open>The scaling \<open>u(row, col) := u(row, col) * sigma[col]\<close> of the first \<open>k\<close> columns.\<close>

definition scaleColumns :: "FullMatrix \<Rightarrow> real list \<Rightarrow> nat \<Rightarrow> nat \<Rightarrow> error + FullMatrix" where
  "scaleColumns u sigma rowCount k =
     for_err [0..<k]
       (\<lambda>col. for_err [0..<rowCount]
          (\<lambda>row U.
             bind_err (elem_at sigma col) (\<lambda>s.
             bind_err (get U row col) (\<lambda>x.
             put U row col (x * complex_of_real s)))))
       u"

definition compressMatrix ::
  "SvdBackend \<Rightarrow> RkApproximationControl \<Rightarrow> FullMatrix \<Rightarrow> nat \<Rightarrow> nat \<Rightarrow> error + RkMatrix" where
  "compressMatrix ext approx M rowsN colsN =
     (if fm_rows M \<noteq> rowsN \<or> fm_cols M \<noteq> colsN \<or> fm_lda M < fm_rows M
      then Inl AssertionFailed
      else
        bind_err (zeroMatrix_from M 0) (\<lambda>zeroMatrix.
        if zeroMatrix then Inr (newRkMatrix None rowsN None colsN NoCompression)
        else
          (let rowCount = fm_rows M;
               colCount = fm_cols M;
               (info, u, sigma, vt) = truncatedSvd ext M
           in if info \<noteq> 0 then Inl AssertionFailed
              else
                (let maxK = min rowCount colCount;
                     k = findK ext approx sigma maxK (assemblyEpsilon approx)
                 in if k = 0 then Inr (newRkMatrix None rowsN None colsN NoCompression)
                    else
                      bind_err (scaleColumns u sigma rowCount k) (\<lambda>u'.
                      bind_err (wrapFullMatrix (fm_m u') rowCount k rowCount) (\<lambda>matU.
                      bind_err (copy matU) (\<lambda>uTilde.
                      bind_err (wrapFullMatrix (fm_m vt) k colCount maxK) (\<lambda>matV.
                      bind_err (copyAndTranspose matV) (\<lambda>vTilde.
                      Inr (newRkMatrix (Some uTilde) rowsN (Some vTilde) colsN Svd))))))))))"

definition compressSvd ::
  "SvdBackend \<Rightarrow> RkApproximationControl \<Rightarrow> ClusterAssemblyFunction \<Rightarrow> error + RkMatrix" where
  "compressSvd ext approx block =
     compressMatrix ext approx (assemble block) (caf_rows block) (caf_cols block)"

subsection \<open>ACA with full pivoting\<close>

text \<open>
  The loop state of \<open>compressAcaFull\<close>: the residual block \<open>m\<close>, the work matrices and
  the running estimate.
\<close>

record AcaFullState =
  af_m :: FullMatrix
  af_tmpA :: FullMatrix
  af_tmpB :: FullMatrix
  af_estimateSquaredNorm :: real

text \<open>
  The cross terms of \<open>compressAcaFull\<close>: the loop runs over \<open>l < nu - 1\<close> and reads the
  earlier vectors as views of the columns of \<open>tmpA\<close> and \<open>tmpB\<close>.
\<close>

definition acaFull_crossTerms ::
  "FullMatrix \<Rightarrow> FullMatrix \<Rightarrow> Vec \<Rightarrow> Vec \<Rightarrow> nat \<Rightarrow> error + real" where
  "acaFull_crossTerms tmpA tmpB va_nu vb_nu nu =
     for_err [0..<nu - 1]
       (\<lambda>l acc.
          bind_err (slice (fm_m tmpA) (l * fm_rows tmpA) (fm_rows tmpA)) (\<lambda>a_l.
          bind_err (slice (fm_m tmpB) (l * fm_rows tmpB) (fm_rows tmpB)) (\<lambda>b_l.
          bind_err (dot va_nu a_l) (\<lambda>da.
          bind_err (dot vb_nu b_l) (\<lambda>db.
          Inr (acc + Re (da * db)))))))
       0"

text \<open>
  One pass of the \<open>for\<close> loop of \<open>compressAcaFull\<close> at index \<open>nu\<close>; the boolean tells
  whether the pass left the loop by \<open>break\<close>.
\<close>

definition acaFull_step :: "real \<Rightarrow> nat \<Rightarrow> AcaFullState \<Rightarrow> error + (AcaFullState \<times> bool)" where
  "acaFull_step epsilon nu st =
     (let M = af_m st; tmpA = af_tmpA st; tmpB = af_tmpB st in
      bind_err (findMax M) (\<lambda>(i_nu, j_nu).
      bind_err (get M i_nu j_nu) (\<lambda>delta.
      if squaredNorm delta = 0 then Inr (st, True)
      else
        bind_err (slice (fm_m M) (j_nu * fm_rows M) (fm_rows tmpA)) (\<lambda>colA.
        bind_err (write_at (fm_m tmpA) (nu * fm_rows tmpA) colA) (\<lambda>stA.
        let tmpA' = tmpA\<lparr>fm_m := stA\<rparr> in
        bind_err
          (for_err [0..<fm_cols M]
             (\<lambda>j B. bind_err (get M i_nu j) (\<lambda>x. put B j nu (x / delta)))
             tmpB) (\<lambda>tmpB'.
        bind_err (slice (fm_m tmpA') (nu * fm_rows tmpA') (fm_rows tmpA')) (\<lambda>va_nu.
        bind_err (slice (fm_m tmpB') (nu * fm_rows tmpB') (fm_rows tmpB')) (\<lambda>vb_nu.
        bind_err (ger (fm_rows M) (fm_cols M) (- 1) va_nu vb_nu (fm_m M) (fm_rows M)) (\<lambda>stM.
        bind_err (acaFull_crossTerms tmpA' tmpB' va_nu vb_nu nu) (\<lambda>newEstimate.
        let est1 = af_estimateSquaredNorm st + 2 * newEstimate;
            ab_norm_2 = normSqr va_nu * normSqr vb_nu;
            est2 = est1 + ab_norm_2
        in Inr (\<lparr> af_m = M\<lparr>fm_m := stM\<rparr>, af_tmpA = tmpA', af_tmpB = tmpB',
                   af_estimateSquaredNorm = est2 \<rparr>,
                ab_norm_2 < epsilon * epsilon * est2)))))))))))"

function acaFull_loop ::
  "real \<Rightarrow> nat \<Rightarrow> nat \<Rightarrow> AcaFullState \<Rightarrow> error + (nat \<times> AcaFullState)" where
  "acaFull_loop epsilon maxK nu st =
     (if nu < maxK then
        bind_err (acaFull_step epsilon nu st) (\<lambda>(st', brk).
          if brk then Inr (nu, st') else acaFull_loop epsilon maxK (Suc nu) st')
      else Inr (nu, st))"
  by pat_completeness auto
termination
  by (relation "measure (\<lambda>(epsilon, maxK, nu, st). maxK - nu)") auto

text \<open>The rank bound \<open>maxK\<close> of \<open>compressAcaFull\<close>.\<close>

definition acaFull_maxK :: "RkApproximationControl \<Rightarrow> FullMatrix \<Rightarrow> nat" where
  "acaFull_maxK approx M =
     (let maxK = min (fm_rows M) (fm_cols M) in
      if approx_k approx > 0 then nat (min (int maxK) (approx_k approx)) else maxK)"

definition acaFull_init :: "RkApproximationControl \<Rightarrow> FullMatrix \<Rightarrow> AcaFullState" where
  "acaFull_init approx M =
     \<lparr> af_m = M,
       af_tmpA = newFullMatrix (fm_rows M) (acaFull_maxK approx M),
       af_tmpB = newFullMatrix (fm_cols M) (acaFull_maxK approx M),
       af_estimateSquaredNorm = 0 \<rparr>"

text \<open>The loop of \<open>compressAcaFull\<close> on the assembled block: the final \<open>nu\<close> and state.\<close>

definition acaFull_run ::
  "RkApproximationControl \<Rightarrow> ClusterAssemblyFunction \<Rightarrow> error + (nat \<times> AcaFullState)" where
  "acaFull_run approx block =
     acaFull_loop (assemblyEpsilon approx) (acaFull_maxK approx (assemble block)) 0
       (acaFull_init approx (assemble block))"

definition compressAcaFull :: "RkApproximationControl \<Rightarrow> ClusterAssemblyFunction \<Rightarrow> error + RkMatrix" where
  "compressAcaFull approx block =
     bind_err (acaFull_run approx block) (\<lambda>(nu, st).
       if nu = 0
       then Inr (newRkMatrix None (caf_rows block) None (caf_cols block) AcaFull)
       else
         (let tmpA = af_tmpA st; tmpB = af_tmpB st;
              newA = newFullMatrix (fm_rows tmpA) nu;
              newB = newFullMatrix (fm_rows tmpB) nu
          in bind_err (slice (fm_m tmpA) 0 (fm_rows tmpA * nu)) (\<lambda>srcA.
             bind_err (write_at (fm_m newA) 0 srcA) (\<lambda>stA.
             bind_err (slice (fm_m tmpB) 0 (fm_rows tmpB * nu)) (\<lambda>srcB.
             bind_err (write_at (fm_m newB) 0 srcB) (\<lambda>stB.
             Inr (newRkMatrix (Some (newA\<lparr>fm_m := stA\<rparr>)) (caf_rows block)
                              (Some (newB\<lparr>fm_m := stB\<rparr>)) (caf_cols block) AcaFull)))))))"

subsection \<open>ACA with partial pivoting\<close>

text \<open>
  The loop state of \<open>compressAcaPartial\<close>. \<open>ap_fetched\<close> and \<open>ap_pivots\<close> are not
  variables of the code: they record, for the statements about pivots, every row index
  fetched as the current pivot row \<open>I\<close> and the pair \<open>(I, J)\<close> of every accepted cross.
\<close>

record AcaPartialState =
  ap_rowFree :: "bool list"
  ap_colFree :: "bool list"
  ap_aCols :: "Vec list"
  ap_bCols :: "Vec list"
  ap_I :: nat
  ap_J :: nat
  ap_k :: nat
  ap_estimateSquaredNorm :: real
  ap_fetched :: "nat list"
  ap_pivots :: "(nat \<times> nat) list"

text \<open>
  The two argmax scans: among the first \<open>n\<close> indices, the first free one of largest
  squared modulus above zero; the index is left as it was when there is none.
\<close>

definition argmaxFree :: "nat \<Rightarrow> Vec \<Rightarrow> bool list \<Rightarrow> nat \<Rightarrow> nat" where
  "argmaxFree n v free start =
     snd (foldl (\<lambda>(maxNorm2, J) j.
                   let norm2 = squaredNorm (v ! j) in
                   if free ! j \<and> norm2 > maxNorm2 then (norm2, j) else (maxNorm2, J))
            (0, start) [0..<n])"

text \<open>The fallback search \<open>I = 0; while (!rowFree[I]) I++;\<close>, which has no bound.\<close>

function firstFree :: "bool list \<Rightarrow> nat \<Rightarrow> error + nat" where
  "firstFree free i =
     (if i < length free then (if free ! i then Inr i else firstFree free (Suc i))
      else Inl OutOfRange)"
  by pat_completeness auto
termination
  by (relation "measure (\<lambda>(free, i). length free - i)") auto

text \<open>One pass of the \<open>do\<close> loop; the boolean tells whether it left the loop by \<open>break\<close>.\<close>

definition acaPartial_step ::
  "ClusterAssemblyFunction \<Rightarrow> real \<Rightarrow> AcaPartialState \<Rightarrow> error + (AcaPartialState \<times> bool)" where
  "acaPartial_step block epsilon st =
     (let rowCount = caf_rows block; colCount = caf_cols block;
          k = ap_k st; I = ap_I st
      in
      bind_err (updateRow (getRow block I (newVector colCount)) I (ap_bCols st) (ap_aCols st) k)
        (\<lambda>bCol.
      bind_err (set_at (ap_rowFree st) I False) (\<lambda>rowFree.
      let J = argmaxFree colCount bCol (ap_colFree st) (ap_J st) in
      bind_err (elem_at bCol J) (\<lambda>bJ.
      if bJ = 0 then
        bind_err (firstFree rowFree 0) (\<lambda>I'.
          Inr (st\<lparr> ap_rowFree := rowFree, ap_I := I', ap_J := J,
                    ap_fetched := ap_fetched st @ [I] \<rparr>, False))
      else
        (let pivot = 1 / bJ;
             bCol' = scale pivot bCol;
             bCols = ap_bCols st @ [bCol']
         in
         bind_err (updateCol (getCol block J (newVector rowCount)) J (ap_aCols st) bCols k)
           (\<lambda>aCol.
         bind_err (set_at (ap_colFree st) J False) (\<lambda>colFree.
         let aCols = ap_aCols st @ [aCol];
             I' = argmaxFree rowCount aCol rowFree I
         in
         bind_err (crossTerms aCol bCol' aCols bCols k) (\<lambda>newEstimate.
         let est1 = ap_estimateSquaredNorm st + 2 * newEstimate;
             ab_norm_2 = normSqr aCol * normSqr bCol';
             est2 = est1 + ab_norm_2
         in Inr (\<lparr> ap_rowFree = rowFree, ap_colFree = colFree,
                    ap_aCols = aCols, ap_bCols = bCols,
                    ap_I = I', ap_J = J, ap_k = k + 1,
                    ap_estimateSquaredNorm = est2,
                    ap_fetched = ap_fetched st @ [I],
                    ap_pivots = ap_pivots st @ [(I, J)] \<rparr>,
                 ab_norm_2 < epsilon * epsilon * est2)))))))))"

text \<open>
  The \<open>do ... while (rowPivotCount < maxK)\<close> loop; \<open>rowPivotCount\<close> is the number of
  passes made before this one.
\<close>

function acaPartial_loop ::
  "ClusterAssemblyFunction \<Rightarrow> real \<Rightarrow> nat \<Rightarrow> nat \<Rightarrow> AcaPartialState \<Rightarrow> error + AcaPartialState" where
  "acaPartial_loop block epsilon maxK rowPivotCount st =
     bind_err (acaPartial_step block epsilon st) (\<lambda>(st', brk).
       if brk then Inr st'
       else if Suc rowPivotCount < maxK
       then acaPartial_loop block epsilon maxK (Suc rowPivotCount) st'
       else Inr st')"
  by pat_completeness auto
termination
  by (relation "measure (\<lambda>(block, epsilon, maxK, rowPivotCount, st). maxK - rowPivotCount)") auto

definition acaPartial_init :: "ClusterAssemblyFunction \<Rightarrow> AcaPartialState" where
  "acaPartial_init block =
     \<lparr> ap_rowFree = replicate (caf_rows block) True,
       ap_colFree = replicate (caf_cols block) True,
       ap_aCols = [], ap_bCols = [],
       ap_I = 0, ap_J = 0, ap_k = 0,
       ap_estimateSquaredNorm = 0,
       ap_fetched = [], ap_pivots = [] \<rparr>"

definition acaPartial_run ::
  "RkApproximationControl \<Rightarrow> ClusterAssemblyFunction \<Rightarrow> error + AcaPartialState" where
  "acaPartial_run approx block =
     acaPartial_loop block (assemblyEpsilon approx) (min (caf_rows block) (caf_cols block)) 0
       (acaPartial_init block)"

definition compressAcaPartial ::
  "RkApproximationControl \<Rightarrow> ClusterAssemblyFunction \<Rightarrow> error + RkMatrix" where
  "compressAcaPartial approx block =
     bind_err (acaPartial_run approx block) (\<lambda>st.
       if ap_k st \<noteq> 0 then
         bind_err (buildFactor (caf_rows block) (ap_k st) (ap_aCols st)) (\<lambda>newA.
         bind_err (buildFactor (caf_cols block) (ap_k st) (ap_bCols st)) (\<lambda>newB.
         Inr (newRkMatrix (Some newA) (caf_rows block) (Some newB) (caf_cols block) AcaPartial)))
       else Inr (newRkMatrix None (caf_rows block) None (caf_cols block) AcaPartial))"

subsection \<open>ACA+\<close>

lemma findCol_from_freeCount:
  "findCol_from block i colFree col = Inr (Some j, colFree', col') \<Longrightarrow>
   freeCount colFree' < freeCount colFree"
proof (induction block i colFree col rule: findCol_from.induct)
  case (1 block i colFree col)
  show ?case
  proof (cases "i < length colFree")
    case False
    with "1.prems" show ?thesis by simp
  next
    case inb: True
    show ?thesis
    proof (cases "colFree ! i")
      case False
      with inb "1.prems" "1.IH"(2) show ?thesis by simp
    next
      case free: True
      have lt: "freeCount (colFree[i := False]) < freeCount colFree"
        using inb free by (rule freeCount_update)
      from "1.prems" inb free obtain z where
        z: "isZero (getCol block i (clear col)) = Inr z"
        and r: "(if \<not> z then Inr (Some i, colFree[i := False], getCol block i (clear col))
                 else findCol_from block (Suc i) (colFree[i := False])
                        (getCol block i (clear col))) = Inr (Some j, colFree', col')"
        by (auto simp: bind_err_def Let_def split: sum.splits)
      show ?thesis
      proof (cases z)
        case False
        with r have "colFree' = colFree[i := False]" by auto
        with lt show ?thesis by simp
      next
        case True
        with r have "findCol_from block (Suc i) (colFree[i := False])
                       (getCol block i (clear col)) = Inr (Some j, colFree', col')"
          by simp
        from "1.IH"(1) [OF inb free refl refl z _ this] True
        have "freeCount colFree' < freeCount (colFree[i := False])" by simp
        with lt show ?thesis by simp
      qed
    qed
  qed
qed

lemma findCol_freeCount:
  "findCol block colFree col = Inr (Some j, colFree', col') \<Longrightarrow>
   freeCount colFree' < freeCount colFree"
  unfolding findCol_def by (rule findCol_from_freeCount)

text \<open>
  The loop state of \<open>compressAcaPlus\<close>; \<open>None\<close> stands for the index \<open>-1\<close>.
  \<open>pl_pivots\<close> is not a variable of the code: it records the pair \<open>(i_star, j_star)\<close> of
  every cross.
\<close>

record AcaPlusState =
  pl_rowFree :: "bool list"
  pl_colFree :: "bool list"
  pl_aCols :: "Vec list"
  pl_bCols :: "Vec list"
  pl_aRef :: Vec
  pl_bRef :: Vec
  pl_i_ref :: "nat option"
  pl_j_ref :: "nat option"
  pl_estimateSquaredNorm :: real
  pl_pivots :: "(nat \<times> nat) list"

text \<open>Reading a vector at a reference index that may be \<open>-1\<close>.\<close>

definition elem_at_ref :: "Vec \<Rightarrow> nat option \<Rightarrow> error + complex" where
  "elem_at_ref v r = (case r of None \<Rightarrow> Inl OutOfRange | Some i \<Rightarrow> elem_at v i)"

text \<open>
  The choice of the cross: the result is \<open>(i_star, j_star, aVec, bVec)\<close>. A zero pivot
  fails \<open>HMAT_ASSERT\<close>.
\<close>

definition acaPlus_cross ::
  "ClusterAssemblyFunction \<Rightarrow> nat \<Rightarrow> AcaPlusState \<Rightarrow> error + (nat \<times> nat \<times> Vec \<times> Vec)" where
  "acaPlus_cross block k st =
     (let rowCount = caf_rows block; colCount = caf_cols block;
          aCols = pl_aCols st; bCols = pl_bCols st;
          i_star = absoluteMaxIndex (pl_aRef st);
          j_star = absoluteMaxIndex (pl_bRef st)
      in
      bind_err (elem_at (pl_aRef st) i_star) (\<lambda>i_star_value.
      bind_err (elem_at (pl_bRef st) j_star) (\<lambda>j_star_value.
      if squaredNorm i_star_value > squaredNorm j_star_value then
        bind_err (updateRow (getRow block i_star (newVector colCount)) i_star bCols aCols k)
          (\<lambda>bVec.
        let j_star = absoluteMaxIndex bVec in
        bind_err (elem_at bVec j_star) (\<lambda>pivot.
        if pivot = 0 then Inl AssertionFailed
        else
          bind_err (updateCol (getCol block j_star (newVector rowCount)) j_star aCols bCols k)
            (\<lambda>aVec.
          Inr (i_star, j_star, scale (1 / pivot) aVec, bVec))))
      else
        bind_err (updateCol (getCol block j_star (newVector rowCount)) j_star aCols bCols k)
          (\<lambda>aVec.
        let i_star = absoluteMaxIndex aVec in
        bind_err (elem_at aVec i_star) (\<lambda>pivot.
        if pivot = 0 then Inl AssertionFailed
        else
          bind_err (updateRow (getRow block i_star (newVector colCount)) i_star bCols aCols k)
            (\<lambda>bVec.
          Inr (i_star, j_star, aVec, scale (1 / pivot) bVec)))))))"

text \<open>
  The inner loop that looks for a new reference column: \<open>findCol\<close>, deflation, and again
  until the deflated column is not zero or \<open>findCol\<close> fails.
\<close>

function refreshCol ::
  "ClusterAssemblyFunction \<Rightarrow> bool list \<Rightarrow> Vec list \<Rightarrow> Vec list \<Rightarrow> nat \<Rightarrow> Vec \<Rightarrow>
   error + (nat option \<times> bool list \<times> Vec)" where
  "refreshCol block colFree aCols bCols k aRef =
     bind_err (findCol block colFree (clear aRef)) (\<lambda>(j_ref, colFree', aRef1).
       case j_ref of
         None \<Rightarrow> Inr (None, colFree', aRef1)
       | Some j \<Rightarrow>
           bind_err (updateCol aRef1 j aCols bCols k) (\<lambda>aRef2.
           bind_err (isZero aRef2) (\<lambda>z.
             if \<not> z then Inr (Some j, colFree', aRef2)
             else refreshCol block colFree' aCols bCols k aRef2)))"
  by pat_completeness auto
termination
  by (relation "measure (\<lambda>(block, colFree, aCols, bCols, k, aRef). freeCount colFree)")
     (auto dest: findCol_freeCount)

text \<open>
  The update of the references after a cross that did not stop the loop; the boolean
  tells whether the search for new references failed, which leaves the loop.
\<close>

definition acaPlus_refresh ::
  "ClusterAssemblyFunction \<Rightarrow> nat \<Rightarrow> nat \<Rightarrow> nat \<Rightarrow> AcaPlusState \<Rightarrow>
   error + (AcaPlusState \<times> bool)" where
  "acaPlus_refresh block k i_star j_star st =
     (let aCols = pl_aCols st; bCols = pl_bCols st in
      bind_err (elem_at bCols (k - 1)) (\<lambda>bLast.
      bind_err (elem_at_ref bLast (pl_j_ref st)) (\<lambda>bj.
      bind_err (elem_at aCols (k - 1)) (\<lambda>aLast.
      bind_err (axpy (- 1 * bj) aLast (pl_aRef st)) (\<lambda>aRef.
      bind_err (elem_at_ref aLast (pl_i_ref st)) (\<lambda>ai.
      bind_err (axpy (- 1 * ai) bLast (pl_bRef st)) (\<lambda>bRef.
      bind_err (isZero aRef) (\<lambda>zA.
      bind_err (isZero bRef) (\<lambda>zB.
      let needNewA = zA \<or> Some j_star = pl_j_ref st;
          needNewB = zB \<or> Some i_star = pl_i_ref st;
          st1 = st\<lparr> pl_aRef := aRef, pl_bRef := bRef \<rparr>
      in
      if needNewA \<and> needNewB then
        bind_err (refreshCol block (pl_colFree st) aCols bCols k aRef)
          (\<lambda>(j_ref, colFree, aRef').
        let st2 = st1\<lparr> pl_colFree := colFree, pl_aRef := aRef', pl_j_ref := j_ref \<rparr> in
        if j_ref = None then Inr (st2, True)
        else
          bind_err (findMinRow block (pl_rowFree st) aCols bCols aRef' (clear bRef))
            (\<lambda>(i_ref, rowFree, bRef').
          Inr (st2\<lparr> pl_rowFree := rowFree, pl_bRef := bRef', pl_i_ref := i_ref \<rparr>,
               i_ref = None)))
      else if needNewB then
        bind_err (findMinRow block (pl_rowFree st) aCols bCols aRef (clear bRef))
          (\<lambda>(i_ref, rowFree, bRef').
        Inr (st1\<lparr> pl_rowFree := rowFree, pl_bRef := bRef', pl_i_ref := i_ref \<rparr>,
             i_ref = None))
      else if needNewA then
        bind_err (findMinCol block (pl_colFree st) aCols bCols bRef (clear aRef))
          (\<lambda>(j_ref, colFree, aRef').
        Inr (st1\<lparr> pl_colFree := colFree, pl_aRef := aRef', pl_j_ref := j_ref \<rparr>,
             j_ref = None))
      else Inr (st1, False))))))))))"

text \<open>
  One pass of the \<open>do\<close> loop with \<open>k\<close> crosses stored before it; the boolean tells
  whether the pass left the loop by \<open>break\<close>.
\<close>

definition acaPlus_step ::
  "ClusterAssemblyFunction \<Rightarrow> real \<Rightarrow> nat \<Rightarrow> AcaPlusState \<Rightarrow> error + (AcaPlusState \<times> bool)" where
  "acaPlus_step block epsilon k st =
     bind_err (acaPlus_cross block k st) (\<lambda>(i_star, j_star, aVec, bVec).
     bind_err (set_at (pl_rowFree st) i_star False) (\<lambda>rowFree.
     bind_err (set_at (pl_colFree st) j_star False) (\<lambda>colFree.
     let aCols = pl_aCols st @ [aVec];
         bCols = pl_bCols st @ [bVec]
     in
     bind_err (crossTerms aVec bVec aCols bCols k) (\<lambda>newEstimate.
     let est1 = pl_estimateSquaredNorm st + 2 * newEstimate;
         ab_norm_2 = normSqr aVec * normSqr bVec;
         est2 = est1 + ab_norm_2;
         st' = st\<lparr> pl_rowFree := rowFree, pl_colFree := colFree,
                   pl_aCols := aCols, pl_bCols := bCols,
                   pl_estimateSquaredNorm := est2,
                   pl_pivots := pl_pivots st @ [(i_star, j_star)] \<rparr>
     in
     if ab_norm_2 < epsilon * epsilon * est2 then Inr (st', True)
     else acaPlus_refresh block (k + 1) i_star j_star st'))))"

function acaPlus_loop ::
  "ClusterAssemblyFunction \<Rightarrow> real \<Rightarrow> nat \<Rightarrow> nat \<Rightarrow> AcaPlusState \<Rightarrow> error + (nat \<times> AcaPlusState)" where
  "acaPlus_loop block epsilon maxK k st =
     bind_err (acaPlus_step block epsilon k st) (\<lambda>(st', brk).
       if brk then Inr (Suc k, st')
       else if Suc k < maxK then acaPlus_loop block epsilon maxK (Suc k) st'
       else Inr (Suc k, st'))"
  by pat_completeness auto
termination
  by (relation "measure (\<lambda>(block, epsilon, maxK, k, st). maxK - k)") auto

text \<open>
  The run of \<open>compressAcaPlus\<close> up to the end of the loop: \<open>None\<close> when the first
  \<open>findCol\<close> finds no column, the final \<open>k\<close> and state otherwise. The index that the first
  \<open>findMinRow\<close> returns is stored without a test.
\<close>

definition acaPlus_run ::
  "RkApproximationControl \<Rightarrow> ClusterAssemblyFunction \<Rightarrow> error + (nat \<times> AcaPlusState) option" where
  "acaPlus_run approx block =
     (let rowCount = caf_rows block; colCount = caf_cols block;
          maxK = min rowCount colCount;
          bRef = newVector colCount; aRef = newVector rowCount;
          rowFree = replicate rowCount True; colFree = replicate colCount True
      in
      bind_err (findCol block colFree aRef) (\<lambda>(j_ref, colFree', aRef').
      if j_ref = None then Inr None
      else
        bind_err (findMinRow block rowFree [] [] aRef' bRef) (\<lambda>(i_ref, rowFree', bRef').
        bind_err
          (acaPlus_loop block (assemblyEpsilon approx) maxK 0
             \<lparr> pl_rowFree = rowFree', pl_colFree = colFree',
               pl_aCols = [], pl_bCols = [],
               pl_aRef = aRef', pl_bRef = bRef',
               pl_i_ref = i_ref, pl_j_ref = j_ref,
               pl_estimateSquaredNorm = 0, pl_pivots = [] \<rparr>)
          (\<lambda>r. Inr (Some r)))))"

definition compressAcaPlus ::
  "RkApproximationControl \<Rightarrow> ClusterAssemblyFunction \<Rightarrow> error + RkMatrix" where
  "compressAcaPlus approx block =
     bind_err (acaPlus_run approx block) (\<lambda>r.
       case r of
         None \<Rightarrow> Inr (newRkMatrix None (caf_rows block) None (caf_cols block) AcaPlus)
       | Some (k, st) \<Rightarrow>
           if \<not> k > 0 then Inl AssertionFailed
           else
             bind_err (buildFactor (caf_rows block) k (pl_aCols st)) (\<lambda>newA.
             bind_err (buildFactor (caf_cols block) k (pl_bCols st)) (\<lambda>newB.
             Inr (newRkMatrix (Some newA) (caf_rows block) (Some newB) (caf_cols block)
                    AcaPlus))))"

subsection \<open>Dispatch\<close>

text \<open>
  \<open>compressWithoutValidation\<close>, and \<open>compress\<close> with the validation mode switched off
  (\<open>validateCompression\<close> false). The tag \<open>NoCompression\<close> fails \<open>HMAT_ASSERT(false)\<close>.
\<close>

definition compressWithoutValidation ::
  "SvdBackend \<Rightarrow> RkApproximationControl \<Rightarrow> CompressionMethod \<Rightarrow> ClusterAssemblyFunction \<Rightarrow>
   error + RkMatrix" where
  "compressWithoutValidation ext approx method block =
     (case method of
        Svd \<Rightarrow> compressSvd ext approx block
      | AcaFull \<Rightarrow> compressAcaFull approx block
      | AcaPartial \<Rightarrow> compressAcaPartial approx block
      | AcaPlus \<Rightarrow> compressAcaPlus approx block
      | NoCompression \<Rightarrow> Inl AssertionFailed)"

definition compress ::
  "SvdBackend \<Rightarrow> RkApproximationControl \<Rightarrow> CompressionMethod \<Rightarrow> Function \<Rightarrow> nat \<Rightarrow> nat \<Rightarrow>
   error + RkMatrix" where
  "compress ext approx method f rowsN colsN =
     compressWithoutValidation ext approx method (newClusterAssemblyFunction f rowsN colsN)"

section \<open>Reference definitions and example inputs\<close>

text \<open>
  The update of the running estimate as the specification states it: the previous
  estimate, plus twice the real part of the sum over every earlier pair \<open>l\<close> of
  \<open>dot(a, a_l) * dot(b, b_l)\<close>, plus the product of the squared norms of the new pair.
\<close>

definition specEstimate :: "real \<Rightarrow> Vec \<Rightarrow> Vec \<Rightarrow> Vec list \<Rightarrow> Vec list \<Rightarrow> real" where
  "specEstimate prev a b aPrev bPrev =
     prev
     + 2 * Re (sum_list (map2 (\<lambda>a_l b_l. dot_c a a_l * dot_c b b_l) aPrev bPrev))
     + normSqr a * normSqr b"

text \<open>Approximation parameters with tolerance \<open>1/1000\<close> and the given fixed rank.\<close>

definition approxWith :: "int \<Rightarrow> RkApproximationControl" where
  "approxWith kmax = \<lparr> assemblyEpsilon = 1 / 1000, approx_k = kmax \<rparr>"

text \<open>
  Modelled from the spec: \<open>findK\<close> is not in the files at hand; the specification
  describes it as the smallest \<open>k\<close> such that every singular value from index \<open>k\<close> on is at
  most \<open>epsilon\<close> times the first one.
\<close>

definition findK_spec :: "RkApproximationControl \<Rightarrow> real list \<Rightarrow> nat \<Rightarrow> real \<Rightarrow> nat" where
  "findK_spec approx sigma maxK epsilon =
     length (takeWhile (\<lambda>k. \<not> (\<forall>i \<in> set [k..<maxK]. sigma ! i \<le> epsilon * sigma ! 0))
               [0..<maxK])"

text \<open>
  A backend for examples on the one by one matrix \<open>(1)\<close>, whose singular value
  decomposition is \<open>1 * 1 * 1\<close>.
\<close>

definition unitSvd :: SvdBackend where
  "unitSvd =
     \<lparr> truncatedSvd =
         (\<lambda>M. (0, \<lparr> fm_rows = 1, fm_cols = 1, fm_lda = 1, fm_m = [1] \<rparr>, [1],
                 \<lparr> fm_rows = 1, fm_cols = 1, fm_lda = 1, fm_m = [1] \<rparr>)),
       findK = findK_spec \<rparr>"

text \<open>
  A block all of whose entries are zero: the kernel callbacks deliver zeros and the
  assembled block is the zero matrix of the block's size.
\<close>

definition zeroBlock :: "ClusterAssemblyFunction \<Rightarrow> bool" where
  "zeroBlock block \<longleftrightarrow>
     (\<forall>i \<in> set [0..<caf_rows block]. \<forall>j \<in> set [0..<caf_cols block].
        f_getRow (caf_f block) i j = 0 \<and> f_getCol (caf_f block) j i = 0) \<and>
     assemble block = Zero (caf_rows block) (caf_cols block)"

text \<open>The assembled block has the size of the two clusters.\<close>

definition assembledShape :: "ClusterAssemblyFunction \<Rightarrow> bool" where
  "assembledShape block \<longleftrightarrow>
     fm_rows (assemble block) = caf_rows block \<and> fm_cols (assemble block) = caf_cols block"

text \<open>
  Contiguous storage (\<open>lda = rows\<close>, \<open>rows * cols\<close> elements), and a matrix all of whose
  elements, read through \<open>get\<close>, are zero.
\<close>

definition contiguous :: "FullMatrix \<Rightarrow> bool" where
  "contiguous M \<longleftrightarrow> fm_lda M = fm_rows M \<and> length (fm_m M) = fm_rows M * fm_cols M"

definition allZero :: "FullMatrix \<Rightarrow> bool" where
  "allZero M \<longleftrightarrow>
     (\<forall>i \<in> set [0..<fm_rows M]. \<forall>j \<in> set [0..<fm_cols M]. get M i j = Inr 0)"

text \<open>The rank that \<open>findK\<close> chooses on the singular values of a matrix.\<close>

definition svdRank :: "SvdBackend \<Rightarrow> RkApproximationControl \<Rightarrow> FullMatrix \<Rightarrow> nat" where
  "svdRank ext approx M =
     (case truncatedSvd ext M of
        (info, u, sigma, vt) \<Rightarrow>
          findK ext approx sigma (min (fm_rows M) (fm_cols M)) (assemblyEpsilon approx))"

text \<open>The pivot of a pass of \<open>compressAcaFull\<close>: its position and its value \<open>delta\<close>.\<close>

definition acaFull_pivot :: "FullMatrix \<Rightarrow> error + (nat \<times> nat \<times> complex)" where
  "acaFull_pivot M =
     bind_err (findMax M) (\<lambda>(i_nu, j_nu).
     bind_err (get M i_nu j_nu) (\<lambda>delta. Inr (i_nu, j_nu, delta)))"

text \<open>
  The state of \<open>compressAcaPartial\<close> after \<open>n\<close> passes in which every fetched row was
  zero: rows \<open>0..n-1\<close> are used, the next row is \<open>n\<close>, and no pair is stored.
\<close>

definition zeroPasses :: "ClusterAssemblyFunction \<Rightarrow> nat \<Rightarrow> AcaPartialState" where
  "zeroPasses block n =
     \<lparr> ap_rowFree = replicate n False @ replicate (caf_rows block - n) True,
       ap_colFree = replicate (caf_cols block) True,
       ap_aCols = [], ap_bCols = [],
       ap_I = n, ap_J = 0, ap_k = 0,
       ap_estimateSquaredNorm = 0,
       ap_fetched = [0..<n], ap_pivots = [] \<rparr>"







section \<open>Properties of the admissibility condition\<close>

lemma isAdmissible_small:
  "length (data rows) < 2 \<or> length (data cols) < 2 \<Longrightarrow>
   fst (isAdmissible ops m c rows cols) = False"
  by (simp add: isAdmissible_def Let_def)

lemma isAdmissible_too_big:
  "m = Svd \<or> m = AcaFull \<Longrightarrow>
   length (data rows) * length (data cols) > maxElementsPerBlock c \<Longrightarrow>
   fst (isAdmissible ops m c rows cols) = False"
  by (auto simp add: isAdmissible_def Let_def)

lemma isAdmissible_gates:
  "m \<noteq> NoCompression \<Longrightarrow> sizeGatesPass m c rows cols \<Longrightarrow>
   fst (isAdmissible ops m c rows cols) = hackbusch ops c rows cols"
  by (cases m)
     (auto simp add: isAdmissible_def sizeGatesPass_def hackbusch_def boxOf_def Let_def
           split: prod.splits)

text \<open>
  Claim C7. \<open>isAdmissible\<close> returns false whenever either cluster has fewer than two
  indices; when the configured method is \<open>Svd\<close> or \<open>AcaFull\<close> it returns false whenever
  the block has more than \<open>maxElementsPerBlock\<close> elements; and when the size gates pass
  (the configured method being one of the four compression methods) it returns true exactly
  when the smaller of the two box diameters is at most \<open>eta\<close> times the distance of the
  boxes.
\<close>

theorem isAdmissible_standard:
  "(length (data rows) < 2 \<or> length (data cols) < 2 \<longrightarrow>
      fst (isAdmissible ops m c rows cols) = False) \<and>
   ((m = Svd \<or> m = AcaFull) \<and>
      length (data rows) * length (data cols) > maxElementsPerBlock c \<longrightarrow>
      fst (isAdmissible ops m c rows cols) = False) \<and>
   (m \<noteq> NoCompression \<and> sizeGatesPass m c rows cols \<longrightarrow>
      (fst (isAdmissible ops m c rows cols) \<longleftrightarrow>
         min (diameter ops (boxOf ops rows)) (diameter ops (boxOf ops cols))
           \<le> eta c * distanceTo ops (boxOf ops rows) (boxOf ops cols)))"
  using isAdmissible_small [of rows cols ops m c]
        isAdmissible_too_big [of m c rows cols ops]
        isAdmissible_gates [of m c rows cols ops]
  by (auto simp add: hackbusch_def)

theorem isAdmissible_standard_witness:
  "fst (isAdmissible lineOps AcaPlus
          \<lparr>eta = 2, maxElementsPerBlock = 3, maxElementsPerBlockAca = 0, always = False\<rparr>
          (node 1 1 0) (node 2 1 4)) = False \<and>
   fst (isAdmissible lineOps Svd
          \<lparr>eta = 2, maxElementsPerBlock = 3, maxElementsPerBlockAca = 0, always = False\<rparr>
          (node 2 1 0) (node 2 1 4)) = False \<and>
   sizeGatesPass AcaPlus
          \<lparr>eta = 2, maxElementsPerBlock = 3, maxElementsPerBlockAca = 0, always = False\<rparr>
          (node 2 1 0) (node 2 1 4) \<and>
   fst (isAdmissible lineOps AcaPlus
          \<lparr>eta = 2, maxElementsPerBlock = 3, maxElementsPerBlockAca = 0, always = False\<rparr>
          (node 2 1 0) (node 2 1 4)) = True \<and>
   fst (isAdmissible lineOps AcaPlus
          \<lparr>eta = 2, maxElementsPerBlock = 3, maxElementsPerBlockAca = 0, always = False\<rparr>
          (node 2 3 0) (node 2 4 1)) = False"
  using isAdmissible_standard [of "node 1 1 0" "node 2 1 4" lineOps AcaPlus
          "\<lparr>eta = 2, maxElementsPerBlock = 3, maxElementsPerBlockAca = 0, always = False\<rparr>"]
        isAdmissible_standard [of "node 2 1 0" "node 2 1 4" lineOps Svd
          "\<lparr>eta = 2, maxElementsPerBlock = 3, maxElementsPerBlockAca = 0, always = False\<rparr>"]
        isAdmissible_standard [of "node 2 1 0" "node 2 1 4" lineOps AcaPlus
          "\<lparr>eta = 2, maxElementsPerBlock = 3, maxElementsPerBlockAca = 0, always = False\<rparr>"]
        isAdmissible_standard [of "node 2 3 0" "node 2 4 1" lineOps AcaPlus
          "\<lparr>eta = 2, maxElementsPerBlock = 3, maxElementsPerBlockAca = 0, always = False\<rparr>"]
  by (simp add: sizeGatesPass_def node_def lineOps_def boxOf_def cachedBox_def)

text \<open>
  Claim C8. With the \<open>always\<close> flag set, \<open>isAdmissible\<close> should return true for every
  pair of clusters that passes the size gates. The function never reads the flag: for two
  clusters of two indices each, with boxes of diameters 3 and 4 at distance 1 and
  \<open>eta = 2\<close>, the size gates pass and the flag is set, yet the result is false.
\<close>

theorem isAdmissible_ignores_always:
  "always (setAlways True
     \<lparr>eta = 2, maxElementsPerBlock = 5000000, maxElementsPerBlockAca = 0, always = False\<rparr>) \<and>
   length (data (node 2 3 0)) = 2 \<and> length (data (node 2 4 1)) = 2 \<and>
   fst (isAdmissible lineOps AcaPlus (setAlways True
     \<lparr>eta = 2, maxElementsPerBlock = 5000000, maxElementsPerBlockAca = 0, always = False\<rparr>)
     (node 2 3 0) (node 2 4 1)) = False"
  by (simp add: isAdmissible_def setAlways_def node_def lineOps_def cachedBox_def)

section \<open>Properties of the kernel-assembly adapter\<close>

text \<open>
  Claim C9. For every row index \<open>i\<close>, when the adapter's block is classified sparse and
  \<open>is_null_row(i)\<close> holds, \<open>getRow(i, result)\<close> yields the zero vector in \<open>result\<close> without
  invoking the kernel's \<open>getRow\<close> callback. The adapter is local to compression.cpp, and
  \<open>result\<close> is what its callers pass: a newly allocated vector (\<open>compressAcaPartial\<close>,
  \<open>compressAcaPlus\<close>) or a vector cleared just before the call (\<open>findMinRow\<close>). The trace
  of kernel calls is empty.
\<close>

theorem getRow_null_row:
  assumes "block_type (caf_info block) = hmat_block_sparse"
    and "is_null_row (caf_info block) i"
  shows "getRow_traced block i (newVector n) = (replicate n 0, []) \<and>
         getRow_traced block i (clear result) = (replicate (length result) 0, [])"
  using assms by (simp add: getRow_traced_def newVector_def clear_def)

theorem getRow_null_row_witness:
  "block_type (caf_info nullHintBlock) = hmat_block_sparse \<and>
   is_null_row (caf_info nullHintBlock) 0 \<and>
   getRow_traced nullHintBlock 0 (newVector 2) = ([0, 0], []) \<and>
   getRow_traced nullHintBlock 0 (clear [1, 2]) = ([0, 0], [])"
proof -
  have b: "block_type (caf_info nullHintBlock) = hmat_block_sparse"
    by (simp add: nullHintBlock_def newClusterAssemblyFunction_def)
  have n: "is_null_row (caf_info nullHintBlock) 0"
    by (simp add: nullHintBlock_def newClusterAssemblyFunction_def)
  have r: "replicate 2 (0::complex) = [0, 0]"
    by (simp add: numeral_2_eq_2)
  from getRow_null_row [OF b n, of 2 "[1, 2]"] b n r show ?thesis
    by simp
qed

section \<open>Shapes of the results\<close>

declare refreshCol.simps [simp del] acaPartial_loop.simps [simp del]
  acaPlus_loop.simps [simp del]

lemma bind_err_Inr [simp]: "bind_err (Inr x) f = f x"
  by (simp add: bind_err_def)

lemma bind_err_Inl [simp]: "bind_err (Inl e) f = Inl e"
  by (simp add: bind_err_def)

lemma bind_errE:
  assumes "bind_err r f = Inr y"
  obtains x where "r = Inr x" and "f x = Inr y"
  using assms by (cases r) (auto simp: bind_err_def)

lemma for_err_inv:
  assumes "for_err xs body s = Inr s'" and "P s"
    and "\<And>i t t'. i \<in> set xs \<Longrightarrow> P t \<Longrightarrow> body i t = Inr t' \<Longrightarrow> P t'"
  shows "P s'"
  using assms
proof (induction xs arbitrary: s)
  case Nil
  then show ?case by simp
next
  case (Cons i xs)
  from Cons.prems(1) obtain t where t: "body i s = Inr t" and r: "for_err xs body t = Inr s'"
    by (auto elim: bind_errE)
  have pt: "P t" using Cons.prems(3) [OF _ Cons.prems(2) t] by simp
  show ?case
  proof (rule Cons.IH [OF r pt])
    fix j u u'
    assume "j \<in> set xs" "P u" "body j u = Inr u'"
    then show "P u'" using Cons.prems(3) [of j u u'] by simp
  qed
qed

definition sameDims :: "FullMatrix \<Rightarrow> FullMatrix \<Rightarrow> bool" where
  "sameDims A B \<longleftrightarrow> fm_rows A = fm_rows B \<and> fm_cols A = fm_cols B \<and> fm_lda A = fm_lda B"

lemma put_dims: "put M i j x = Inr M' \<Longrightarrow> sameDims M' M"
  by (auto simp: put_def sameDims_def elim!: bind_errE)

lemma sameDims_trans: "sameDims A B \<Longrightarrow> sameDims B C \<Longrightarrow> sameDims A C"
  by (simp add: sameDims_def)

lemma sameDims_refl [simp]: "sameDims A A"
  by (simp add: sameDims_def)

lemma copy_dims:
  assumes "copy M = Inr R"
  shows "fm_rows R = fm_rows M \<and> fm_cols R = fm_cols M"
proof (cases "fm_lda M = fm_rows M")
  case True
  with assms show ?thesis
    by (auto simp: copy_def Let_def newFullMatrix_def elim!: bind_errE)
next
  case False
  with assms have f: "for_err [0..<fm_cols M]
          (\<lambda>col res.
             bind_err (slice (fm_m M) (fm_lda M * col) (fm_rows M)) (\<lambda>src.
             bind_err (write_at (fm_m res) (fm_rows res * col) src) (\<lambda>st.
             Inr (res\<lparr>fm_m := st\<rparr>))))
          (newFullMatrix (fm_rows M) (fm_cols M)) = Inr R"
    by (simp add: copy_def Let_def)
  have "sameDims R (newFullMatrix (fm_rows M) (fm_cols M))"
    by (rule for_err_inv [OF f, where P = "\<lambda>t. sameDims t (newFullMatrix (fm_rows M) (fm_cols M))"])
       (auto simp: sameDims_def elim!: bind_errE)
  then show ?thesis by (simp add: sameDims_def newFullMatrix_def)
qed

lemma copyAndTranspose_dims:
  assumes "copyAndTranspose M = Inr R"
  shows "fm_rows R = fm_cols M \<and> fm_cols R = fm_rows M"
proof -
  have inner: "\<And>i t t'. sameDims t (newFullMatrix (fm_cols M) (fm_rows M)) \<Longrightarrow>
      for_err [0..<fm_cols M] (\<lambda>j res. bind_err (get M i j) (\<lambda>x. put res j i x)) t = Inr t' \<Longrightarrow>
      sameDims t' (newFullMatrix (fm_cols M) (fm_rows M))"
  proof -
    fix i t t'
    assume s: "sameDims t (newFullMatrix (fm_cols M) (fm_rows M))"
      and f: "for_err [0..<fm_cols M] (\<lambda>j res. bind_err (get M i j) (\<lambda>x. put res j i x)) t = Inr t'"
    show "sameDims t' (newFullMatrix (fm_cols M) (fm_rows M))"
      by (rule for_err_inv [OF f, where P = "\<lambda>t. sameDims t (newFullMatrix (fm_cols M) (fm_rows M))"])
         (auto intro: s elim!: bind_errE dest!: put_dims intro: sameDims_trans)
  qed
  have "sameDims R (newFullMatrix (fm_cols M) (fm_rows M))"
    by (rule for_err_inv [OF assms [unfolded copyAndTranspose_def],
          where P = "\<lambda>t. sameDims t (newFullMatrix (fm_cols M) (fm_rows M))"])
       (auto intro: inner)
  then show ?thesis by (simp add: sameDims_def newFullMatrix_def)
qed

lemma buildFactor_dims:
  assumes "buildFactor n k vs = Inr A"
  shows "fm_rows A = n \<and> fm_cols A = k"
proof -
  have "sameDims A (newFullMatrix n k)"
    by (rule for_err_inv [OF assms [unfolded buildFactor_def],
          where P = "\<lambda>t. sameDims t (newFullMatrix n k)"])
       (auto simp: sameDims_def elim!: bind_errE)
  then show ?thesis by (simp add: sameDims_def newFullMatrix_def)
qed

lemma compressMatrix_shape:
  assumes "compressMatrix ext approx M rowsN colsN = Inr rk"
  shows "(rk_a rk = None \<and> rk_b rk = None \<and> rk_method rk = NoCompression) \<or>
         (\<exists>A B. rk_a rk = Some A \<and> rk_b rk = Some B \<and> rk_method rk = Svd \<and>
                fm_rows A = rowsN \<and> fm_rows B = colsN \<and> fm_cols A = fm_cols B \<and>
                0 < fm_cols A \<and> fm_cols A \<le> min rowsN colsN)"
  using assms
  unfolding compressMatrix_def Let_def
  by (auto simp: newRkMatrix_def wrapFullMatrix_def
           split: if_splits prod.splits elim!: bind_errE
           dest!: copy_dims copyAndTranspose_dims)


subsection \<open>Lengths\<close>

lemma getRow_length [simp]: "length (getRow block i v) = length v"
  by (simp add: getRow_def getRow_traced_def)

lemma getCol_length [simp]: "length (getCol block i v) = length v"
  by (simp add: getCol_def getCol_traced_def)

lemma newVector_length [simp]: "length (newVector n) = n"
  by (simp add: newVector_def)

lemma clear_length [simp]: "length (clear v) = length v"
  by (simp add: clear_def)

lemma scale_length [simp]: "length (scale alpha v) = length v"
  by (simp add: scale_def)

lemma axpy_length: "axpy alpha x y = Inr y' \<Longrightarrow> length y' = length y"
  by (auto simp: axpy_def split: if_splits)

lemma updateRow_length:
  assumes "updateRow v row rws cls k = Inr v'"
  shows "length v' = length v"
  by (rule for_err_inv [OF assms [unfolded updateRow_def], where P = "\<lambda>t. length t = length v"])
     (auto elim!: bind_errE dest: axpy_length)


lemma elem_at_Inr: "elem_at xs i = Inr x \<Longrightarrow> i < length xs \<and> x = xs ! i"
  by (auto simp: elem_at_def split: if_splits)

lemma set_at_Inr: "set_at xs i x = Inr ys \<Longrightarrow> i < length xs \<and> ys = xs[i := x]"
  by (auto simp: set_at_def split: if_splits)

subsection \<open>ACA full\<close>

lemma acaFull_step_dims:
  assumes "acaFull_step epsilon nu st = Inr (st', brk)"
  shows "sameDims (af_tmpA st') (af_tmpA st) \<and> sameDims (af_tmpB st') (af_tmpB st)"
proof -
  have B: "\<And>i_nu delta B'. for_err [0..<fm_cols (af_m st)]
             (\<lambda>j B. bind_err (get (af_m st) i_nu j) (\<lambda>x. put B j nu (x / delta)))
             (af_tmpB st) = Inr B' \<Longrightarrow> sameDims B' (af_tmpB st)"
  proof -
    fix i_nu delta B'
    assume f: "for_err [0..<fm_cols (af_m st)]
             (\<lambda>j B. bind_err (get (af_m st) i_nu j) (\<lambda>x. put B j nu (x / delta)))
             (af_tmpB st) = Inr B'"
    show "sameDims B' (af_tmpB st)"
      by (rule for_err_inv [OF f, where P = "\<lambda>t. sameDims t (af_tmpB st)"])
         (auto elim!: bind_errE dest!: put_dims intro: sameDims_trans)
  qed
  from assms show ?thesis
    unfolding acaFull_step_def Let_def
    by (auto split: if_splits prod.splits elim!: bind_errE dest!: B)
       (auto simp: sameDims_def)
qed

lemma acaFull_loop_inv:
  "acaFull_loop epsilon maxK nu st = Inr (nu', st') \<Longrightarrow> nu \<le> maxK \<Longrightarrow>
   nu' \<le> maxK \<and> sameDims (af_tmpA st') (af_tmpA st) \<and> sameDims (af_tmpB st') (af_tmpB st)"
proof (induction epsilon maxK nu st rule: acaFull_loop.induct)
  case (1 epsilon maxK nu st)
  show ?case
  proof (cases "nu < maxK")
    case False
    with "1.prems" show ?thesis by simp
  next
    case True
    with "1.prems"(1) obtain st1 brk where
      s: "acaFull_step epsilon nu st = Inr (st1, brk)"
      and r: "(if brk then Inr (nu, st1) else acaFull_loop epsilon maxK (Suc nu) st1) = Inr (nu', st')"
      by (auto elim!: bind_errE)
    note d = acaFull_step_dims [OF s]
    show ?thesis
    proof (cases brk)
      case True
      with r d "1.prems"(2) show ?thesis by simp
    next
      case False
      with r have l: "acaFull_loop epsilon maxK (Suc nu) st1 = Inr (nu', st')" by simp
      from "1.IH" [OF True s refl False l] True d show ?thesis
        by (auto intro: sameDims_trans)
    qed
  qed
qed

lemma acaFull_maxK_le:
  "acaFull_maxK approx M \<le> min (fm_rows M) (fm_cols M) \<and>
   (approx_k approx > 0 \<longrightarrow> int (acaFull_maxK approx M) \<le> approx_k approx)"
  by (auto simp: acaFull_maxK_def Let_def)

lemma compressAcaFull_shape:
  assumes "compressAcaFull approx block = Inr rk"
  shows "rk_method rk = AcaFull \<and>
         ((rk_a rk = None \<and> rk_b rk = None) \<or>
          (\<exists>A B. rk_a rk = Some A \<and> rk_b rk = Some B \<and>
                 fm_rows A = fm_rows (assemble block) \<and> fm_rows B = fm_cols (assemble block) \<and>
                 fm_cols A = fm_cols B \<and> 0 < fm_cols A \<and>
                 fm_cols A \<le> acaFull_maxK approx (assemble block)))"
proof -
  from assms obtain nu st where
    run: "acaFull_run approx block = Inr (nu, st)"
    and rest: "(if nu = 0
       then Inr (newRkMatrix None (caf_rows block) None (caf_cols block) AcaFull)
       else
         (let tmpA = af_tmpA st; tmpB = af_tmpB st;
              newA = newFullMatrix (fm_rows tmpA) nu;
              newB = newFullMatrix (fm_rows tmpB) nu
          in bind_err (slice (fm_m tmpA) 0 (fm_rows tmpA * nu)) (\<lambda>srcA.
             bind_err (write_at (fm_m newA) 0 srcA) (\<lambda>stA.
             bind_err (slice (fm_m tmpB) 0 (fm_rows tmpB * nu)) (\<lambda>srcB.
             bind_err (write_at (fm_m newB) 0 srcB) (\<lambda>stB.
             Inr (newRkMatrix (Some (newA\<lparr>fm_m := stA\<rparr>)) (caf_rows block)
                              (Some (newB\<lparr>fm_m := stB\<rparr>)) (caf_cols block) AcaFull))))))) = Inr rk"
    unfolding compressAcaFull_def by (auto elim!: bind_errE)
  from acaFull_loop_inv [OF run [unfolded acaFull_run_def]]
  have inv: "nu \<le> acaFull_maxK approx (assemble block)"
    "fm_rows (af_tmpA st) = fm_rows (assemble block)"
    "fm_rows (af_tmpB st) = fm_cols (assemble block)"
    by (simp_all add: sameDims_def acaFull_init_def newFullMatrix_def)
  show ?thesis
  proof (cases "nu = 0")
    case True
    with rest show ?thesis by (auto simp: newRkMatrix_def)
  next
    case False
    with rest inv show ?thesis
      by (auto simp: Let_def newRkMatrix_def newFullMatrix_def elim!: bind_errE)
  qed
qed

subsection \<open>ACA partial\<close>

definition apLens :: "AcaPartialState \<Rightarrow> bool" where
  "apLens st \<longleftrightarrow> length (ap_aCols st) = ap_k st \<and> length (ap_bCols st) = ap_k st \<and>
                  length (ap_pivots st) = ap_k st"

lemma acaPartial_step_facts:
  assumes "acaPartial_step block epsilon st = Inr (st', brk)"
  shows "ap_k st' \<le> ap_k st + 1 \<and> 0 < caf_cols block \<and> 0 < length (ap_rowFree st) \<and>
         length (ap_rowFree st') = length (ap_rowFree st) \<and>
         (apLens st \<longrightarrow> apLens st')"
proof -
  define J where "J = argmaxFree (caf_cols block)"
  from assms obtain bCol rowFree bJ where
    u: "updateRow (getRow block (ap_I st) (newVector (caf_cols block))) (ap_I st)
          (ap_bCols st) (ap_aCols st) (ap_k st) = Inr bCol"
    and sa: "set_at (ap_rowFree st) (ap_I st) False = Inr rowFree"
    and e: "elem_at bCol (argmaxFree (caf_cols block) bCol (ap_colFree st) (ap_J st)) = Inr bJ"
    unfolding acaPartial_step_def Let_def
    by (elim bind_errE) blast
  from updateRow_length [OF u] have lb: "length bCol = caf_cols block" by simp
  from elem_at_Inr [OF e] lb have c: "0 < caf_cols block" by auto
  from set_at_Inr [OF sa] have r: "0 < length (ap_rowFree st)"
    and rf: "length rowFree = length (ap_rowFree st)" by auto
  have "ap_k st' \<le> ap_k st + 1 \<and> length (ap_rowFree st') = length (ap_rowFree st) \<and>
        (apLens st \<longrightarrow> apLens st')"
  proof (cases "bJ = 0")
    case True
    with assms u sa e rf show ?thesis
      unfolding acaPartial_step_def Let_def
      by (auto simp: apLens_def elim!: bind_errE)
  next
    case False
    with assms u sa e rf show ?thesis
      unfolding acaPartial_step_def Let_def
      by (auto simp: apLens_def elim!: bind_errE)
  qed
  with c r show ?thesis by simp
qed

lemma acaPartial_loop_facts:
  "acaPartial_loop block epsilon maxK cnt st = Inr st' \<Longrightarrow> ap_k st \<le> cnt \<Longrightarrow>
   ap_k st' \<le> max (Suc cnt) maxK \<and> 0 < caf_cols block \<and> 0 < length (ap_rowFree st) \<and>
   (apLens st \<longrightarrow> apLens st')"
proof (induction block epsilon maxK cnt st rule: acaPartial_loop.induct)
  case (1 block epsilon maxK cnt st)
  from "1.prems"(1) obtain st1 brk where
    s: "acaPartial_step block epsilon st = Inr (st1, brk)"
    and r: "(if brk then Inr st1
             else if Suc cnt < maxK then acaPartial_loop block epsilon maxK (Suc cnt) st1
             else Inr st1) = Inr st'"
    by (subst (asm) acaPartial_loop.simps) (auto elim!: bind_errE)
  note f = acaPartial_step_facts [OF s]
  show ?case
  proof (cases "brk \<or> \<not> Suc cnt < maxK")
    case True
    with r have "st' = st1" by (auto split: if_splits)
    with f "1.prems"(2) show ?thesis by auto
  next
    case False
    with r have l: "acaPartial_loop block epsilon maxK (Suc cnt) st1 = Inr st'" by simp
    from False have nb: "\<not> brk" and lt: "Suc cnt < maxK" by auto
    from f "1.prems"(2) have k1: "ap_k st1 \<le> Suc cnt" by simp
    from "1.IH" [OF s refl nb lt l k1] f lt show ?thesis by auto
  qed
qed

lemma compressAcaPartial_shape:
  assumes "compressAcaPartial approx block = Inr rk"
  shows "rk_method rk = AcaPartial \<and>
         ((rk_a rk = None \<and> rk_b rk = None) \<or>
          (\<exists>A B. rk_a rk = Some A \<and> rk_b rk = Some B \<and>
                 fm_rows A = caf_rows block \<and> fm_rows B = caf_cols block \<and>
                 fm_cols A = fm_cols B \<and> 0 < fm_cols A \<and>
                 fm_cols A \<le> min (caf_rows block) (caf_cols block)))"
proof -
  from assms obtain st where
    run: "acaPartial_run approx block = Inr st"
    and rest: "(if ap_k st \<noteq> 0 then
         bind_err (buildFactor (caf_rows block) (ap_k st) (ap_aCols st)) (\<lambda>newA.
         bind_err (buildFactor (caf_cols block) (ap_k st) (ap_bCols st)) (\<lambda>newB.
         Inr (newRkMatrix (Some newA) (caf_rows block) (Some newB) (caf_cols block) AcaPartial)))
       else Inr (newRkMatrix None (caf_rows block) None (caf_cols block) AcaPartial)) = Inr rk"
    unfolding compressAcaPartial_def by (auto elim!: bind_errE)
  from acaPartial_loop_facts [OF run [unfolded acaPartial_run_def]]
  have k: "ap_k st \<le> min (caf_rows block) (caf_cols block)"
    by (auto simp: acaPartial_init_def)
  show ?thesis
  proof (cases "ap_k st = 0")
    case True
    with rest show ?thesis by (auto simp: newRkMatrix_def)
  next
    case False
    with rest k show ?thesis
      by (auto simp: newRkMatrix_def elim!: bind_errE dest!: buildFactor_dims)
  qed
qed


subsection \<open>ACA plus\<close>

lemma isZero_Inr: "isZero v = Inr z \<Longrightarrow> 0 < length v"
  by (auto simp: isZero_def elem_at_def elim!: bind_errE split: if_splits)

lemma findCol_from_Some:
  "findCol_from block i colFree col = Inr (Some j, colFree', col') \<Longrightarrow>
   j < length colFree \<and> 0 < length col' \<and> length col' = length col \<and>
   length colFree' = length colFree"
proof (induction block i colFree col rule: findCol_from.induct)
  case (1 block i colFree col)
  note unf = findCol_from.simps [of block i colFree col]
  show ?case
  proof (cases "i < length colFree")
    case False
    with "1.prems" [unfolded unf] show ?thesis by simp
  next
    case inb: True
    show ?thesis
    proof (cases "colFree ! i")
      case False
      from "1.prems" [unfolded unf] inb False
      have rec: "findCol_from block (Suc i) colFree col = Inr (Some j, colFree', col')"
        by (simp del: findCol_from.simps)
      from "1.IH"(2) [OF inb False rec] show ?thesis .
    next
      case free: True
      from "1.prems" [unfolded unf] inb free obtain z where
        z: "isZero (getCol block i (clear col)) = Inr z"
        and r: "(if \<not> z then Inr (Some i, colFree[i := False], getCol block i (clear col))
                 else findCol_from block (Suc i) (colFree[i := False])
                        (getCol block i (clear col))) = Inr (Some j, colFree', col')"
        by (auto simp del: findCol_from.simps simp: Let_def elim!: bind_errE)
      show ?thesis
      proof (cases z)
        case False
        with r have eq: "j = i" "colFree' = colFree[i := False]"
          "col' = getCol block i (clear col)"
          by auto
        from isZero_Inr [OF z] inb show ?thesis by (simp add: eq)
      next
        case True
        with r have "findCol_from block (Suc i) (colFree[i := False])
                       (getCol block i (clear col)) = Inr (Some j, colFree', col')"
          by (simp del: findCol_from.simps)
        from "1.IH"(1) [OF inb free refl refl z _ this] True
        show ?thesis by auto
      qed
    qed
  qed
qed

definition plLens :: "nat \<Rightarrow> AcaPlusState \<Rightarrow> bool" where
  "plLens k st \<longleftrightarrow> length (pl_aCols st) = k \<and> length (pl_bCols st) = k \<and>
                    length (pl_pivots st) = k"

lemma acaPlus_refresh_keeps:
  assumes "acaPlus_refresh block k i_star j_star st = Inr (st', brk)"
  shows "pl_aCols st' = pl_aCols st \<and> pl_bCols st' = pl_bCols st \<and> pl_pivots st' = pl_pivots st"
  using assms
  unfolding acaPlus_refresh_def Let_def
  by (elim bind_errE) (auto split: if_splits elim!: bind_errE)

definition plAfterCross ::
  "AcaPlusState \<Rightarrow> nat \<Rightarrow> nat \<Rightarrow> Vec \<Rightarrow> Vec \<Rightarrow> bool list \<Rightarrow> bool list \<Rightarrow> real \<Rightarrow> AcaPlusState" where
  "plAfterCross st i_star j_star aVec bVec rowFree colFree est =
     st\<lparr> pl_rowFree := rowFree, pl_colFree := colFree,
         pl_aCols := pl_aCols st @ [aVec], pl_bCols := pl_bCols st @ [bVec],
         pl_estimateSquaredNorm := est,
         pl_pivots := pl_pivots st @ [(i_star, j_star)] \<rparr>"

lemma acaPlus_step_cases:
  assumes "acaPlus_step block epsilon k st = Inr (st', brk)"
  obtains i_star j_star aVec bVec rowFree colFree est where
    "acaPlus_cross block k st = Inr (i_star, j_star, aVec, bVec)"
    "set_at (pl_rowFree st) i_star False = Inr rowFree"
    "set_at (pl_colFree st) j_star False = Inr colFree"
    "(brk \<and> st' = plAfterCross st i_star j_star aVec bVec rowFree colFree est) \<or>
     acaPlus_refresh block (k + 1) i_star j_star
       (plAfterCross st i_star j_star aVec bVec rowFree colFree est) = Inr (st', brk)"
proof -
  from assms obtain x where
    c: "acaPlus_cross block k st = Inr x"
    and r1: "(case x of (i_star, j_star, aVec, bVec) \<Rightarrow>
     bind_err (set_at (pl_rowFree st) i_star False) (\<lambda>rowFree.
     bind_err (set_at (pl_colFree st) j_star False) (\<lambda>colFree.
     bind_err (crossTerms aVec bVec (pl_aCols st @ [aVec]) (pl_bCols st @ [bVec]) k) (\<lambda>newEstimate.
     if normSqr aVec * normSqr bVec
          < epsilon * epsilon *
            (pl_estimateSquaredNorm st + 2 * newEstimate + normSqr aVec * normSqr bVec)
     then Inr (plAfterCross st i_star j_star aVec bVec rowFree colFree
                 (pl_estimateSquaredNorm st + 2 * newEstimate + normSqr aVec * normSqr bVec), True)
     else acaPlus_refresh block (k + 1) i_star j_star
            (plAfterCross st i_star j_star aVec bVec rowFree colFree
               (pl_estimateSquaredNorm st + 2 * newEstimate + normSqr aVec * normSqr bVec)))))) =
       Inr (st', brk)"
    unfolding acaPlus_step_def Let_def plAfterCross_def
    by (erule bind_errE)
  obtain i_star j_star aVec bVec where x: "x = (i_star, j_star, aVec, bVec)"
    by (cases x) auto
  from r1 [unfolded x] obtain rowFree colFree newEstimate where
    rf: "set_at (pl_rowFree st) i_star False = Inr rowFree"
    and cf: "set_at (pl_colFree st) j_star False = Inr colFree"
    and r2: "(if normSqr aVec * normSqr bVec
          < epsilon * epsilon *
            (pl_estimateSquaredNorm st + 2 * newEstimate + normSqr aVec * normSqr bVec)
     then Inr (plAfterCross st i_star j_star aVec bVec rowFree colFree
                 (pl_estimateSquaredNorm st + 2 * newEstimate + normSqr aVec * normSqr bVec), True)
     else acaPlus_refresh block (k + 1) i_star j_star
            (plAfterCross st i_star j_star aVec bVec rowFree colFree
               (pl_estimateSquaredNorm st + 2 * newEstimate + normSqr aVec * normSqr bVec))) =
       Inr (st', brk)"
    by (simp only: prod.case) (elim bind_errE, blast)
  from r2 have "(brk \<and> st' = plAfterCross st i_star j_star aVec bVec rowFree colFree
                 (pl_estimateSquaredNorm st + 2 * newEstimate + normSqr aVec * normSqr bVec)) \<or>
     acaPlus_refresh block (k + 1) i_star j_star
       (plAfterCross st i_star j_star aVec bVec rowFree colFree
                 (pl_estimateSquaredNorm st + 2 * newEstimate + normSqr aVec * normSqr bVec))
       = Inr (st', brk)"
    by (auto split: if_splits)
  with c [unfolded x] rf cf show thesis by (rule that)
qed

lemma acaPlus_step_lens:
  assumes "acaPlus_step block epsilon k st = Inr (st', brk)" and "plLens k st"
  shows "plLens (Suc k) st'"
proof -
  from assms(1) obtain i_star j_star aVec bVec rowFree colFree est where
    d: "(brk \<and> st' = plAfterCross st i_star j_star aVec bVec rowFree colFree est) \<or>
     acaPlus_refresh block (k + 1) i_star j_star
       (plAfterCross st i_star j_star aVec bVec rowFree colFree est) = Inr (st', brk)"
    by (rule acaPlus_step_cases)
  have "plLens (Suc k) (plAfterCross st i_star j_star aVec bVec rowFree colFree est)"
    using assms(2) by (simp add: plLens_def plAfterCross_def)
  with d show ?thesis
    by (auto simp: plLens_def dest!: acaPlus_refresh_keeps)
qed

lemma acaPlus_loop_facts:
  "acaPlus_loop block epsilon maxK k st = Inr (k', st') \<Longrightarrow> plLens k st \<Longrightarrow>
   k' \<le> max (Suc k) maxK \<and> 0 < k' \<and> plLens k' st'"
proof (induction block epsilon maxK k st rule: acaPlus_loop.induct)
  case (1 block epsilon maxK k st)
  from "1.prems"(1) obtain st1 brk where
    s: "acaPlus_step block epsilon k st = Inr (st1, brk)"
    and r: "(if brk then Inr (Suc k, st1)
             else if Suc k < maxK then acaPlus_loop block epsilon maxK (Suc k) st1
             else Inr (Suc k, st1)) = Inr (k', st')"
    by (subst (asm) acaPlus_loop.simps) (auto elim!: bind_errE)
  note f = acaPlus_step_lens [OF s "1.prems"(2)]
  show ?case
  proof (cases "brk \<or> \<not> Suc k < maxK")
    case True
    with r have "k' = Suc k \<and> st' = st1" by (auto split: if_splits)
    with f show ?thesis by auto
  next
    case False
    with r have l: "acaPlus_loop block epsilon maxK (Suc k) st1 = Inr (k', st')" by simp
    from False have nb: "\<not> brk" and lt: "Suc k < maxK" by auto
    from "1.IH" [OF s refl nb lt l f] lt show ?thesis by auto
  qed
qed

lemma acaPlus_run_facts:
  assumes "acaPlus_run approx block = Inr (Some (k, st))"
  shows "0 < k \<and> k \<le> min (caf_rows block) (caf_cols block) \<and> plLens k st"
proof -
  from assms obtain j colFree' aRef' i_ref rowFree' bRef' where
    fc: "findCol block (replicate (caf_cols block) True) (newVector (caf_rows block))
           = Inr (Some j, colFree', aRef')"
    and lp: "acaPlus_loop block (assemblyEpsilon approx) (min (caf_rows block) (caf_cols block)) 0
             \<lparr> pl_rowFree = rowFree', pl_colFree = colFree',
               pl_aCols = [], pl_bCols = [],
               pl_aRef = aRef', pl_bRef = bRef',
               pl_i_ref = i_ref, pl_j_ref = Some j,
               pl_estimateSquaredNorm = 0, pl_pivots = [] \<rparr> = Inr (k, st)"
    unfolding acaPlus_run_def Let_def
    by (elim bind_errE) (auto split: if_splits prod.splits elim!: bind_errE)
  from findCol_from_Some [OF fc [unfolded findCol_def]]
  have pos: "0 < caf_cols block" "0 < caf_rows block"
    by (auto simp del: length_greater_0_conv)
  from acaPlus_loop_facts [OF lp] pos show ?thesis
    by (auto simp: plLens_def)
qed

lemma compressAcaPlus_shape:
  assumes "compressAcaPlus approx block = Inr rk"
  shows "rk_method rk = AcaPlus \<and>
         ((rk_a rk = None \<and> rk_b rk = None) \<or>
          (\<exists>A B. rk_a rk = Some A \<and> rk_b rk = Some B \<and>
                 fm_rows A = caf_rows block \<and> fm_rows B = caf_cols block \<and>
                 fm_cols A = fm_cols B \<and> 0 < fm_cols A \<and>
                 fm_cols A \<le> min (caf_rows block) (caf_cols block)))"
proof -
  from assms obtain r where
    run: "acaPlus_run approx block = Inr r"
    and rest: "(case r of
         None \<Rightarrow> Inr (newRkMatrix None (caf_rows block) None (caf_cols block) AcaPlus)
       | Some (k, st) \<Rightarrow>
           if \<not> k > 0 then Inl AssertionFailed
           else
             bind_err (buildFactor (caf_rows block) k (pl_aCols st)) (\<lambda>newA.
             bind_err (buildFactor (caf_cols block) k (pl_bCols st)) (\<lambda>newB.
             Inr (newRkMatrix (Some newA) (caf_rows block) (Some newB) (caf_cols block)
                    AcaPlus)))) = Inr rk"
    unfolding compressAcaPlus_def by (erule bind_errE)
  show ?thesis
  proof (cases r)
    case None
    with rest show ?thesis by (auto simp: newRkMatrix_def)
  next
    case (Some p)
    obtain k st where p: "p = (k, st)" by (cases p)
    from acaPlus_run_facts [OF run [unfolded Some p]] rest Some p show ?thesis
      by (auto simp: newRkMatrix_def elim!: bind_errE dest!: buildFactor_dims split: if_splits)
  qed
qed

subsection \<open>The absolute-max index and the zero test\<close>

lemma cabs1_zero_iff [simp]: "cabs1 z = 0 \<longleftrightarrow> z = 0"
  by (auto simp: cabs1_def complex_eq_iff)

lemma cabs1_0 [simp]: "cabs1 0 = 0"
  by (simp add: cabs1_def)

lemma cabs1_nonneg [simp]: "0 \<le> cabs1 z"
  by (simp add: cabs1_def)

lemma amax_from_spec:
  "best < i \<Longrightarrow> xs = drop i v \<Longrightarrow> i \<le> length v \<Longrightarrow> bmax = cabs1 (v ! best) \<Longrightarrow>
   \<forall>j<i. cabs1 (v ! j) \<le> bmax \<Longrightarrow>
   amax_from xs i best bmax < length v \<and>
   (\<forall>j<length v. cabs1 (v ! j) \<le> cabs1 (v ! amax_from xs i best bmax))"
proof (induction xs arbitrary: i best bmax)
  case Nil
  then show ?case by simp
next
  case (Cons x xs)
  from Cons.prems(2,3) have il: "i < length v"
    by (cases "i < length v") auto
  from Cons.prems(2) il have x: "x = v ! i" and xs: "xs = drop (Suc i) v"
    by (simp_all add: Cons_nth_drop_Suc [symmetric])
  show ?case
  proof (cases "cabs1 x > bmax")
    case True
    have "\<forall>j<Suc i. cabs1 (v ! j) \<le> cabs1 x"
      using Cons.prems(5) True x by (auto simp: less_Suc_eq)
    from Cons.IH [OF _ xs _ _ this, of i] il x True show ?thesis by simp
  next
    case False
    have "\<forall>j<Suc i. cabs1 (v ! j) \<le> bmax"
      using Cons.prems(5) False x by (auto simp: less_Suc_eq)
    from Cons.IH [OF _ xs _ Cons.prems(4) this] Cons.prems(1) il False show ?thesis by simp
  qed
qed

lemma i_amax_spec:
  assumes "v \<noteq> []"
  shows "i_amax v < length v \<and> (\<forall>j<length v. cabs1 (v ! j) \<le> cabs1 (v ! i_amax v))"
proof -
  from assms obtain x xs where v: "v = x # xs" by (cases v) auto
  have "amax_from xs 1 0 (cabs1 x) < length v \<and>
        (\<forall>j<length v. cabs1 (v ! j) \<le> cabs1 (v ! amax_from xs 1 0 (cabs1 x)))"
    by (rule amax_from_spec) (auto simp: v)
  then show ?thesis by (simp add: i_amax_def v)
qed

lemma isZero_iff:
  assumes "v \<noteq> []"
  shows "isZero v = Inr (\<forall>x \<in> set v. x = 0)"
proof -
  note s = i_amax_spec [OF assms]
  have "(v ! i_amax v = 0) \<longleftrightarrow> (\<forall>x \<in> set v. x = 0)"
  proof
    assume z: "v ! i_amax v = 0"
    show "\<forall>x \<in> set v. x = 0"
    proof
      fix x assume "x \<in> set v"
      then obtain j where "j < length v" "x = v ! j" by (auto simp: in_set_conv_nth)
      with s z have "cabs1 x \<le> 0" by auto
      then have "cabs1 x = 0" using cabs1_nonneg [of x] by linarith
      then show "x = 0" by simp
    qed
  next
    assume "\<forall>x \<in> set v. x = 0"
    with s show "v ! i_amax v = 0" by auto
  qed
  with s show ?thesis
    by (simp add: isZero_def absoluteMaxIndex_def elem_at_def)
qed

lemma isZero_replicate: "0 < n \<Longrightarrow> isZero (replicate n 0) = Inr True"
  by (subst isZero_iff) auto

lemma allZero_iff:
  "allZero M \<longleftrightarrow> (\<forall>i < fm_rows M. \<forall>j < fm_cols M. get M i j = Inr 0)"
  by (auto simp: allZero_def)

lemma allZero_storage:
  assumes "contiguous M"
  shows "allZero M \<longleftrightarrow> (\<forall>n < fm_rows M * fm_cols M. fm_m M ! n = 0)"
proof
  assume a: "allZero M"
  show "\<forall>n < fm_rows M * fm_cols M. fm_m M ! n = 0"
  proof (intro allI impI)
    fix n assume n: "n < fm_rows M * fm_cols M"
    then have r: "0 < fm_rows M" by (cases "fm_rows M") auto
    have i: "n mod fm_rows M < fm_rows M" using r by simp
    have j: "n div fm_rows M < fm_cols M"
      using n r by (simp add: less_mult_imp_div_less mult.commute)
    from a i j have "get M (n mod fm_rows M) (n div fm_rows M) = Inr 0"
      by (simp add: allZero_iff)
    with assms n show "fm_m M ! n = 0"
      by (simp add: get_def elem_at_def contiguous_def split: if_splits)
  qed
next
  assume s: "\<forall>n < fm_rows M * fm_cols M. fm_m M ! n = 0"
  show "allZero M"
    unfolding allZero_iff
  proof (intro allI impI)
    fix i j assume i: "i < fm_rows M" and j: "j < fm_cols M"
    have "i + j * fm_rows M < fm_rows M * Suc j" using i by (simp add: mult.commute)
    also have "\<dots> \<le> fm_rows M * fm_cols M"
      by (rule mult_le_mono2) (use j in simp)
    finally have "i + j * fm_rows M < fm_rows M * fm_cols M" .
    with s assms show "get M i j = Inr 0"
      by (simp add: get_def elem_at_def contiguous_def)
  qed
qed

lemma zeroMatrix_from_eq:
  "0 < fm_rows M \<Longrightarrow> fm_rows M * fm_cols M \<le> length (fm_m M) \<Longrightarrow>
   zeroMatrix_from M col =
     Inr (\<forall>n. fm_rows M * col \<le> n \<and> n < fm_rows M * fm_cols M \<longrightarrow> fm_m M ! n = 0)"
proof (induction M col rule: zeroMatrix_from.induct)
  case (1 M col)
  show ?case
  proof (cases "col < fm_cols M")
    case False
    then have c: "fm_rows M * fm_cols M \<le> fm_rows M * col"
      by (intro mult_le_mono2) simp
    have "\<forall>n. \<not> (fm_rows M * col \<le> n \<and> n < fm_rows M * fm_cols M)"
    proof (intro allI notI)
      fix n assume "fm_rows M * col \<le> n \<and> n < fm_rows M * fm_cols M"
      with c show False by linarith
    qed
    then have "(\<forall>n. fm_rows M * col \<le> n \<and> n < fm_rows M * fm_cols M \<longrightarrow> fm_m M ! n = 0) = True"
      by blast
    with False show ?thesis by (subst zeroMatrix_from.simps) (simp only: if_False)
  next
    case True
    have le: "fm_rows M * col + fm_rows M \<le> fm_rows M * fm_cols M"
    proof -
      have "fm_rows M * col + fm_rows M = fm_rows M * Suc col" by simp
      also have "\<dots> \<le> fm_rows M * fm_cols M"
        by (rule mult_le_mono2) (use True in simp)
      finally show ?thesis .
    qed
    define v where "v = take (fm_rows M) (drop (fm_rows M * col) (fm_m M))"
    have sl: "slice (fm_m M) (fm_rows M * col) (fm_rows M) = Inr v"
      using le "1.prems"(2) by (simp add: slice_def v_def)
    have lv: "length v = fm_rows M" using le "1.prems"(2) by (simp add: v_def)
    then have ne: "v \<noteq> []" using "1.prems"(1) by auto
    have vz: "(\<forall>x \<in> set v. x = 0) \<longleftrightarrow>
              (\<forall>n. fm_rows M * col \<le> n \<and> n < fm_rows M * Suc col \<longrightarrow> fm_m M ! n = 0)"
    proof
      assume a: "\<forall>x \<in> set v. x = 0"
      show "\<forall>n. fm_rows M * col \<le> n \<and> n < fm_rows M * Suc col \<longrightarrow> fm_m M ! n = 0"
      proof (intro allI impI)
        fix n assume n: "fm_rows M * col \<le> n \<and> n < fm_rows M * Suc col"
        then have k: "n - fm_rows M * col < fm_rows M" by auto
        then have "v ! (n - fm_rows M * col) \<in> set v" using lv by simp
        with a have "v ! (n - fm_rows M * col) = 0" by blast
        moreover have "v ! (n - fm_rows M * col) = fm_m M ! n"
          using k n le "1.prems"(2) by (simp add: v_def)
        ultimately show "fm_m M ! n = 0" by simp
      qed
    next
      assume a: "\<forall>n. fm_rows M * col \<le> n \<and> n < fm_rows M * Suc col \<longrightarrow> fm_m M ! n = 0"
      show "\<forall>x \<in> set v. x = 0"
      proof
        fix x assume "x \<in> set v"
        then obtain k where k: "k < fm_rows M" and x: "x = v ! k"
          using lv by (auto simp: in_set_conv_nth)
        have "v ! k = fm_m M ! (fm_rows M * col + k)"
          using k le "1.prems"(2) by (simp add: v_def)
        with a k x show "x = 0" by simp
      qed
    qed
    show ?thesis
    proof (cases "\<forall>x \<in> set v. x = 0")
      case False
      with vz obtain n where "fm_rows M * col \<le> n" "n < fm_rows M * Suc col" "fm_m M ! n \<noteq> 0"
        by auto
      with le have "\<not> (\<forall>n. fm_rows M * col \<le> n \<and> n < fm_rows M * fm_cols M \<longrightarrow> fm_m M ! n = 0)"
        by (intro notI) (auto dest!: spec [where x = n])
      with True sl isZero_iff [OF ne] False show ?thesis
        by (subst zeroMatrix_from.simps) simp
    next
      case z: True
      have rec: "zeroMatrix_from M (Suc col) =
        Inr (\<forall>n. fm_rows M * Suc col \<le> n \<and> n < fm_rows M * fm_cols M \<longrightarrow> fm_m M ! n = 0)"
        using "1.IH" [OF True sl _ _ "1.prems"] isZero_iff [OF ne] z by simp
      have "(\<forall>n. fm_rows M * col \<le> n \<and> n < fm_rows M * fm_cols M \<longrightarrow> fm_m M ! n = 0) \<longleftrightarrow>
            (\<forall>n. fm_rows M * Suc col \<le> n \<and> n < fm_rows M * fm_cols M \<longrightarrow> fm_m M ! n = 0)"
        using vz z by (metis le_less_linear mult_Suc_right add.commute nat_le_linear
            le_trans le_add2 order_refl)
      with True sl isZero_iff [OF ne] z rec show ?thesis
        by (subst zeroMatrix_from.simps) simp
    qed
  qed
qed

lemma zeroMatrix_from_allZero:
  assumes "contiguous M" and "0 < fm_rows M"
  shows "zeroMatrix_from M 0 = Inr (allZero M)"
  using zeroMatrix_from_eq [of M 0] assms allZero_storage [OF assms(1)]
  by (simp add: contiguous_def)

lemma compressMatrix_zero_test:
  assumes "contiguous M" and "0 < fm_rows M" and "fm_rows M = r" and "fm_cols M = c"
  shows "(allZero M \<longrightarrow>
            compressMatrix ext approx M r c = Inr (newRkMatrix None r None c NoCompression)) \<and>
         (\<forall>rk. compressMatrix ext approx M r c = Inr rk \<and> isEmptyRk rk \<longrightarrow>
            allZero M \<or> svdRank ext approx M = 0)"
proof (intro conjI impI allI)
  assume "allZero M"
  with assms zeroMatrix_from_allZero [OF assms(1,2)]
  show "compressMatrix ext approx M r c = Inr (newRkMatrix None r None c NoCompression)"
    by (simp add: compressMatrix_def contiguous_def)
next
  fix rk
  assume a: "compressMatrix ext approx M r c = Inr rk \<and> isEmptyRk rk"
  show "allZero M \<or> svdRank ext approx M = 0"
  proof (cases "allZero M")
    case True
    then show ?thesis by simp
  next
    case False
    obtain info u sigma vt where t: "truncatedSvd ext M = (info, u, sigma, vt)"
      by (cases "truncatedSvd ext M") auto
    have "svdRank ext approx M = 0"
    proof (rule ccontr)
      assume nz: "svdRank ext approx M \<noteq> 0"
      with a assms False t zeroMatrix_from_allZero [OF assms(1,2)] show False
        by (auto simp: compressMatrix_def contiguous_def svdRank_def Let_def isEmptyRk_def
              newRkMatrix_def split: if_splits elim!: bind_errE)
    qed
    then show ?thesis by simp
  qed
qed

lemma acaFull_step_pivot_column:
  assumes step: "acaFull_step epsilon nu st = Inr (st', brk)"
    and piv: "acaFull_pivot (af_m st) = Inr (i_nu, j_nu, delta)"
    and nz: "squaredNorm delta \<noteq> 0"
    and lda: "fm_lda (af_m st) = fm_rows (af_m st)"
    and ta: "fm_rows (af_tmpA st) = fm_rows (af_m st)" "fm_lda (af_tmpA st) = fm_rows (af_m st)"
  shows "\<forall>i < fm_rows (af_m st). \<exists>x. get (af_tmpA st') i nu = Inr x \<and> get (af_m st) i j_nu = Inr x"
proof -
  define M where "M = af_m st"
  define R where "R = fm_rows M"
  from piv have fm: "findMax M = Inr (i_nu, j_nu)" and g: "get M i_nu j_nu = Inr delta"
    by (auto simp: acaFull_pivot_def M_def elim!: bind_errE)
  from step fm g nz obtain colA stA where
    sl: "slice (fm_m M) (j_nu * R) R = Inr colA"
    and wr: "write_at (fm_m (af_tmpA st)) (nu * R) colA = Inr stA"
    and tA: "af_tmpA st' = (af_tmpA st)\<lparr>fm_m := stA\<rparr>"
    unfolding acaFull_step_def Let_def M_def [symmetric] ta R_def [symmetric]
    by (simp add: ta M_def [symmetric] R_def [symmetric])
       (elim bind_errE, auto simp: ta M_def [symmetric] R_def [symmetric])
  from sl have c1: "j_nu * R + R \<le> length (fm_m M)"
    and colA: "colA = take R (drop (j_nu * R) (fm_m M))"
    by (auto simp: slice_def split: if_splits)
  then have lc: "length colA = R" by simp
  from wr lc have c2: "nu * R + R \<le> length (fm_m (af_tmpA st))"
    and stA: "stA = take (nu * R) (fm_m (af_tmpA st)) @ colA @ drop (nu * R + R) (fm_m (af_tmpA st))"
    by (auto simp: write_at_def split: if_splits)
  show ?thesis
  proof (intro allI impI)
    fix i assume "i < fm_rows (af_m st)"
    then have i: "i < R" by (simp add: R_def M_def)
    have l1: "length (take (nu * R) (fm_m (af_tmpA st))) = nu * R" using c2 by simp
    have "stA ! (i + nu * R) = colA ! i"
      using i lc l1 by (simp add: stA nth_append)
    also have "\<dots> = fm_m M ! (i + j_nu * R)"
      using i c1 by (simp add: colA add.commute)
    finally have e: "stA ! (i + nu * R) = fm_m M ! (i + j_nu * R)" .
    have ls: "length stA = length (fm_m (af_tmpA st))" using c2 lc by (simp add: stA)
    have "get (af_tmpA st') i nu = Inr (stA ! (i + nu * R))"
      using i c2 ls by (simp add: get_def tA ta R_def M_def elem_at_def)
    moreover have "get (af_m st) i j_nu = Inr (fm_m M ! (i + j_nu * R))"
      using i c1 lda by (simp add: get_def R_def M_def elem_at_def)
    ultimately show "\<exists>x. get (af_tmpA st') i nu = Inr x \<and> get (af_m st) i j_nu = Inr x"
      using e by simp
  qed
qed

subsection \<open>All-zero blocks\<close>

lemma for_err_fix:
  "(\<And>i. i \<in> set xs \<Longrightarrow> body i s = Inr s) \<Longrightarrow> for_err xs body s = Inr s"
  by (induction xs) auto

lemma foldl_fix:
  "(\<And>i. i \<in> set xs \<Longrightarrow> f s i = s) \<Longrightarrow> foldl f s xs = s"
  by (induction xs) auto

lemma get_Zero: "i < r \<Longrightarrow> j < c \<Longrightarrow> get (Zero r c) i j = Inr 0"
proof -
  assume i: "i < r" and j: "j < c"
  have "i + j * r < r * Suc j" using i by (simp add: mult.commute)
  also have "\<dots> \<le> r * c" by (rule mult_le_mono2) (use j in simp)
  finally show ?thesis
    by (simp add: get_def Zero_def newFullMatrix_def elem_at_def)
qed

lemma findMax_Zero:
  assumes "0 < r" and "0 < c"
  shows "findMax (Zero r c) = Inr (0, 0)"
proof -
  have sq: "squaredNorm 0 = 0" by (simp add: squaredNorm_def)
  have d: "fm_rows (Zero r c) = r" "fm_cols (Zero r c) = c"
    by (simp_all add: Zero_def newFullMatrix_def)
  have inner: "\<And>col. col \<in> set [0..<c] \<Longrightarrow>
      for_err [0..<r]
        (\<lambda>row (i, j, maxNorm).
            bind_err (get (Zero r c) row col) (\<lambda>x.
              if squaredNorm x > maxNorm then Inr (row, col, squaredNorm x)
              else Inr (i, j, maxNorm)))
        (0, 0, 0) = Inr (0, 0, 0)"
    by (rule for_err_fix) (simp add: get_Zero sq)
  have outer: "for_err [0..<c]
          (\<lambda>col. for_err [0..<r]
             (\<lambda>row (i, j, maxNorm).
                bind_err (get (Zero r c) row col) (\<lambda>x.
                  if squaredNorm x > maxNorm then Inr (row, col, squaredNorm x)
                  else Inr (i, j, maxNorm))))
          (0, 0, 0) = Inr (0, 0, 0)"
    by (rule for_err_fix) (rule inner)
  show ?thesis
    using assms by (simp add: findMax_def d get_Zero sq outer)
qed

lemma compressAcaFull_zero:
  assumes "assemble block = Zero r c" and "0 < r" and "0 < c"
  shows "compressAcaFull approx block
           = Inr (newRkMatrix None (caf_rows block) None (caf_cols block) AcaFull)"
proof -
  define st where "st = acaFull_init approx (Zero r c)"
  have m: "af_m st = Zero r c" by (simp add: st_def acaFull_init_def)
  have sq: "squaredNorm 0 = 0" by (simp add: squaredNorm_def)
  have step: "acaFull_step (assemblyEpsilon approx) 0 st = Inr (st, True)"
    using assms(2,3) by (simp add: acaFull_step_def m findMax_Zero get_Zero sq)
  have "acaFull_loop (assemblyEpsilon approx) (acaFull_maxK approx (Zero r c)) 0 st = Inr (0, st)"
    by (subst acaFull_loop.simps) (simp add: step)
  then show ?thesis
    by (simp add: compressAcaFull_def acaFull_run_def assms(1) st_def)
qed

lemma contiguous_Zero: "contiguous (Zero r c)"
  by (simp add: contiguous_def Zero_def newFullMatrix_def)

lemma allZero_Zero: "allZero (Zero r c)"
proof -
  have d: "fm_rows (Zero r c) = r" "fm_cols (Zero r c) = c"
    by (simp_all add: Zero_def newFullMatrix_def)
  show ?thesis by (simp add: allZero_iff d get_Zero)
qed

lemma compressSvd_zero:
  assumes "zeroBlock block" and "0 < caf_rows block"
  shows "compressSvd ext approx block
           = Inr (newRkMatrix None (caf_rows block) None (caf_cols block) NoCompression)"
proof -
  from assms(1) have a: "assemble block = Zero (caf_rows block) (caf_cols block)"
    by (simp add: zeroBlock_def)
  have d: "fm_rows (Zero (caf_rows block) (caf_cols block)) = caf_rows block"
    "fm_cols (Zero (caf_rows block) (caf_cols block)) = caf_cols block"
    by (simp_all add: Zero_def newFullMatrix_def)
  from compressMatrix_zero_test [OF contiguous_Zero _ d, of ext approx] assms(2) d allZero_Zero
  show ?thesis by (simp add: compressSvd_def a)
qed

lemma map_zero_replicate:
  "(\<And>i. i < n \<Longrightarrow> f i = (0::complex)) \<Longrightarrow> map f [0..<n] = replicate n 0"
  by (rule nth_equalityI) auto

lemma getCol_zero:
  assumes "zeroBlock block" and "j < caf_cols block" and "length v = caf_rows block"
  shows "getCol block j (clear v) = replicate (caf_rows block) 0"
proof -
  have "map (f_getCol (caf_f block) j) [0..<caf_rows block] = replicate (caf_rows block) 0"
    by (rule map_zero_replicate) (use assms(1,2) in \<open>simp add: zeroBlock_def\<close>)
  with assms(3) show ?thesis
    by (simp add: getCol_def getCol_traced_def clear_def)
qed

lemma getRow_zero:
  assumes "zeroBlock block" and "i < caf_rows block"
  shows "getRow block i (newVector (caf_cols block)) = replicate (caf_cols block) 0"
proof -
  have "map (f_getRow (caf_f block) i) [0..<caf_cols block] = replicate (caf_cols block) 0"
    by (rule map_zero_replicate) (use assms(1,2) in \<open>simp add: zeroBlock_def\<close>)
  then show ?thesis
    by (simp add: getRow_def getRow_traced_def newVector_def)
qed

lemma findCol_from_zero:
  "zeroBlock block \<Longrightarrow> 0 < caf_rows block \<Longrightarrow> length colFree = caf_cols block \<Longrightarrow>
   length col = caf_rows block \<Longrightarrow>
   \<exists>colFree' col'. findCol_from block i colFree col = Inr (None, colFree', col')"
proof (induction block i colFree col rule: findCol_from.induct)
  case (1 block i colFree col)
  note unf = findCol_from.simps [of block i colFree col]
  show ?case
  proof (cases "i < length colFree")
    case False
    then show ?thesis by (simp add: unf)
  next
    case inb: True
    show ?thesis
    proof (cases "colFree ! i")
      case False
      from "1.IH"(2) [OF inb False "1.prems"] inb False show ?thesis
        by (simp add: unf)
    next
      case free: True
      have g: "getCol block i (clear col) = replicate (caf_rows block) 0"
        using "1.prems" inb by (intro getCol_zero) simp_all
      have z: "isZero (getCol block i (clear col)) = Inr True"
        using "1.prems"(2) by (simp add: g isZero_replicate)
      have "\<exists>colFree' col'. findCol_from block (Suc i) (colFree[i := False])
              (getCol block i (clear col)) = Inr (None, colFree', col')"
        by (rule "1.IH"(1) [OF inb free refl refl z]) (use "1.prems" g in simp_all)
      with inb free z show ?thesis by (simp add: unf Let_def)
    qed
  qed
qed

lemma compressAcaPlus_zero:
  assumes "zeroBlock block" and "0 < caf_rows block"
  shows "compressAcaPlus approx block
           = Inr (newRkMatrix None (caf_rows block) None (caf_cols block) AcaPlus)"
proof -
  from findCol_from_zero [OF assms, of "replicate (caf_cols block) True"
         "newVector (caf_rows block)" 0]
  obtain colFree' col' where
    "findCol block (replicate (caf_cols block) True) (newVector (caf_rows block))
       = Inr (None, colFree', col')"
    by (auto simp: findCol_def)
  then have "acaPlus_run approx block = Inr None"
    by (simp add: acaPlus_run_def Let_def)
  then show ?thesis by (simp add: compressAcaPlus_def)
qed

lemma firstFree_run:
  "i \<le> a \<Longrightarrow> 0 < b \<Longrightarrow> firstFree (replicate a False @ replicate b True) i = Inr a"
proof (induction "a - i" arbitrary: i)
  case 0
  then have "i = a" by simp
  with "0.prems" show ?case
    by (subst firstFree.simps) (simp add: nth_append)
next
  case (Suc d)
  then have lt: "i < a" by simp
  from Suc.hyps(1) [of "Suc i"] Suc.hyps(2) lt Suc.prems(2)
  have "firstFree (replicate a False @ replicate b True) (Suc i) = Inr a" by simp
  with lt show ?case
    by (subst firstFree.simps) (simp add: nth_append)
qed

lemma argmaxFree_zero: "argmaxFree n (replicate n 0) free start = start"
proof -
  have sq: "squaredNorm 0 = 0" by (simp add: squaredNorm_def)
  have "foldl (\<lambda>(maxNorm2, J) j.
                   let norm2 = squaredNorm (replicate n 0 ! j) in
                   if free ! j \<and> norm2 > maxNorm2 then (norm2, j) else (maxNorm2, J))
            (0, start) [0..<n] = (0, start)"
    by (rule foldl_fix) (simp add: sq)
  then show ?thesis by (simp add: argmaxFree_def)
qed

lemma mark_used:
  assumes "n < r"
  shows "(replicate n False @ replicate (r - n) True)[n := False]
         = replicate (Suc n) False @ replicate (r - Suc n) True"
proof (rule nth_equalityI)
  show "length ((replicate n False @ replicate (r - n) True)[n := False])
        = length (replicate (Suc n) False @ replicate (r - Suc n) True)"
    using assms by (simp del: replicate_Suc)
next
  fix i assume "i < length ((replicate n False @ replicate (r - n) True)[n := False])"
  then have i: "i < r" using assms by simp
  show "(replicate n False @ replicate (r - n) True)[n := False] ! i
        = (replicate (Suc n) False @ replicate (r - Suc n) True) ! i"
    using i assms
    by (cases "i = n") (auto simp: nth_append nth_list_update simp del: replicate_Suc)
qed

lemma updateRow_none: "updateRow v row rws cls 0 = Inr v"
  by (simp add: updateRow_def)

lemma acaPartial_step_zero:
  assumes z: "zeroBlock block" and c: "0 < caf_cols block" and n: "Suc n < caf_rows block"
  shows "acaPartial_step block epsilon (zeroPasses block n) = Inr (zeroPasses block (Suc n), False)"
proof -
  have gr: "getRow block n (newVector (caf_cols block)) = replicate (caf_cols block) 0"
    using z n by (intro getRow_zero) simp_all
  have sa: "set_at (replicate n False @ replicate (caf_rows block - n) True) n False
            = Inr (replicate (Suc n) False @ replicate (caf_rows block - Suc n) True)"
    using n by (simp add: set_at_def mark_used)
  have am: "argmaxFree (caf_cols block) (replicate (caf_cols block) 0)
              (replicate (caf_cols block) True) 0 = 0"
    by (rule argmaxFree_zero)
  have el: "elem_at (replicate (caf_cols block) (0::complex)) 0 = Inr 0"
    using c by (simp add: elem_at_def)
  have ff: "firstFree (replicate (Suc n) False @ replicate (caf_rows block - Suc n) True) 0
            = Inr (Suc n)"
    using n by (intro firstFree_run) simp_all
  have f: "ap_k (zeroPasses block n) = 0" "ap_I (zeroPasses block n) = n"
    "ap_J (zeroPasses block n) = 0"
    "ap_aCols (zeroPasses block n) = []" "ap_bCols (zeroPasses block n) = []"
    "ap_rowFree (zeroPasses block n) = replicate n False @ replicate (caf_rows block - n) True"
    "ap_colFree (zeroPasses block n) = replicate (caf_cols block) True"
    by (simp_all add: zeroPasses_def)
  have r: "(zeroPasses block n)\<lparr> ap_rowFree := replicate (Suc n) False @ replicate (caf_rows block - Suc n) True,
             ap_I := Suc n, ap_J := 0, ap_fetched := ap_fetched (zeroPasses block n) @ [n] \<rparr>
           = zeroPasses block (Suc n)"
    by (simp add: zeroPasses_def del: replicate_Suc)
  show ?thesis
    unfolding acaPartial_step_def Let_def f gr updateRow_none bind_err_Inr sa am el ff
    by (simp only: r if_True simp_thms)
qed

lemma acaPartial_loop_zero:
  "zeroBlock block \<Longrightarrow> 0 < caf_cols block \<Longrightarrow> caf_cols block < caf_rows block \<Longrightarrow>
   maxK \<le> caf_cols block \<Longrightarrow> cnt < caf_cols block \<Longrightarrow>
   \<exists>n. acaPartial_loop block epsilon maxK cnt (zeroPasses block cnt) = Inr (zeroPasses block n)"
proof (induction "maxK - cnt" arbitrary: cnt)
  case 0
  have s: "acaPartial_step block epsilon (zeroPasses block cnt)
           = Inr (zeroPasses block (Suc cnt), False)"
    using "0.prems" by (intro acaPartial_step_zero) simp_all
  from "0.hyps" have "\<not> Suc cnt < maxK" by simp
  then show ?case
    by (subst acaPartial_loop.simps) (auto simp: s)
next
  case (Suc d)
  have s: "acaPartial_step block epsilon (zeroPasses block cnt)
           = Inr (zeroPasses block (Suc cnt), False)"
    using Suc.prems by (intro acaPartial_step_zero) simp_all
  show ?case
  proof (cases "Suc cnt < maxK")
    case False
    then show ?thesis by (subst acaPartial_loop.simps) (auto simp: s)
  next
    case True
    with Suc.prems(4) have "Suc cnt < caf_cols block" by simp
    have "d = maxK - Suc cnt" using Suc.hyps(2) by simp
    from Suc.hyps(1) [of "Suc cnt", OF this Suc.prems(1,2,3,4) \<open>Suc cnt < caf_cols block\<close>]
    obtain n where "acaPartial_loop block epsilon maxK (Suc cnt) (zeroPasses block (Suc cnt))
                    = Inr (zeroPasses block n)"
      by auto
    with True show ?thesis by (subst acaPartial_loop.simps) (auto simp: s)
  qed
qed

lemma compressAcaPartial_zero:
  assumes "zeroBlock block" and "0 < caf_cols block" and "caf_cols block < caf_rows block"
  shows "compressAcaPartial approx block
           = Inr (newRkMatrix None (caf_rows block) None (caf_cols block) AcaPartial)"
proof -
  have i: "acaPartial_init block = zeroPasses block 0"
    by (simp add: acaPartial_init_def zeroPasses_def)
  from acaPartial_loop_zero [OF assms, of "min (caf_rows block) (caf_cols block)" 0
         "assemblyEpsilon approx"] assms(2)
  obtain n where "acaPartial_run approx block = Inr (zeroPasses block n)"
    by (auto simp: acaPartial_run_def i)
  then show ?thesis
    by (simp add: compressAcaPartial_def zeroPasses_def)
qed

subsection \<open>Deflation\<close>











subsection \<open>Pivots of ACA partial\<close>










subsection \<open>Pivots of ACA+\<close>












section \<open>Ranks and factor shapes\<close>

lemma compressWithoutValidation_shape:
  assumes "compressWithoutValidation ext approx meth block = Inr rk"
    and "meth = AcaFull \<longrightarrow> assembledShape block"
  shows "(rk_a rk = None \<and> rk_b rk = None) \<or>
         (\<exists>A B. rk_a rk = Some A \<and> rk_b rk = Some B \<and>
                fm_rows A = caf_rows block \<and> fm_rows B = caf_cols block \<and>
                fm_cols A = fm_cols B \<and> 0 < fm_cols A \<and>
                fm_cols A \<le> min (caf_rows block) (caf_cols block) \<and>
                (meth = AcaFull \<and> 0 < approx_k approx \<longrightarrow> int (fm_cols A) \<le> approx_k approx))"
proof (cases meth)
  case Svd
  with assms(1) have "compressMatrix ext approx (assemble block) (caf_rows block) (caf_cols block) = Inr rk"
    by (simp add: compressWithoutValidation_def compressSvd_def)
  from compressMatrix_shape [OF this] Svd show ?thesis by auto
next
  case AcaFull
  with assms(1) have "compressAcaFull approx block = Inr rk"
    by (simp add: compressWithoutValidation_def)
  from compressAcaFull_shape [OF this] assms(2) AcaFull
       acaFull_maxK_le [of approx "assemble block"]
  show ?thesis by (auto simp: assembledShape_def)
next
  case AcaPartial
  with assms(1) have "compressAcaPartial approx block = Inr rk"
    by (simp add: compressWithoutValidation_def)
  from compressAcaPartial_shape [OF this] AcaPartial show ?thesis by auto
next
  case AcaPlus
  with assms(1) have "compressAcaPlus approx block = Inr rk"
    by (simp add: compressWithoutValidation_def)
  from compressAcaPlus_shape [OF this] AcaPlus show ?thesis by auto
next
  case NoCompression
  with assms(1) show ?thesis by (simp add: compressWithoutValidation_def)
qed

text \<open>
  Claim C3, as stated: with a positive \<open>k_max\<close> the rank is at most \<open>k_max\<close> for each of
  the three cross approximations. \<open>compressAcaPartial\<close> and \<open>compressAcaPlus\<close> never read
  \<open>k_max\<close>: with \<open>k_max = 1\<close>, \<open>compressAcaPartial\<close> returns rank 2 on the block with
  rows \<open>(1, 1)\<close> and \<open>(1, 2)\<close>.
\<close>

theorem rank_exceeds_k_max_counterexample:
  "0 < approx_k (approxWith 1) \<and>
   map_sum id rank (compressAcaPartial (approxWith 1) (matrixBlock 2 2 (entries [[1, 1], [1, 2]])))
     = Inr 2 \<and>
   \<not> int 2 \<le> approx_k (approxWith 1)"
  by code_simp

text \<open>
  Claim C3, amended: for every compression method the rank of the returned Rk is at most
  \<open>min(rows, cols)\<close> (for \<open>compressAcaFull\<close>, where the assembled block has the size of
  the clusters), and when \<open>k_max\<close> is positive the rank is at most \<open>k_max\<close> for
  \<open>compressAcaFull\<close>.
\<close>

theorem compress_rank_bound:
  assumes "compressWithoutValidation ext approx meth block = Inr rk"
    and "meth = AcaFull \<longrightarrow> assembledShape block"
  shows "rank rk \<le> min (caf_rows block) (caf_cols block) \<and>
         (meth = AcaFull \<and> 0 < approx_k approx \<longrightarrow> int (rank rk) \<le> approx_k approx)"
  using compressWithoutValidation_shape [OF assms]
  by (auto simp: rank_def)

theorem compress_rank_bound_witness:
  "compressWithoutValidation unitSvd (approxWith 1) AcaFull
     (matrixBlock 2 2 (entries [[2, 1], [1, 1]])) =
     Inr \<lparr> rk_a = Some \<lparr> fm_rows = 2, fm_cols = 1, fm_lda = 2, fm_m = [2, 1] \<rparr>,
           rk_rows = 2,
           rk_b = Some \<lparr> fm_rows = 2, fm_cols = 1, fm_lda = 2, fm_m = [1, 1 / 2] \<rparr>,
           rk_cols = 2, rk_method = AcaFull \<rparr> \<and>
   assembledShape (matrixBlock 2 2 (entries [[2, 1], [1, 1]])) \<and>
   rank \<lparr> rk_a = Some \<lparr> fm_rows = 2, fm_cols = 1, fm_lda = 2, fm_m = [2, 1] \<rparr>,
          rk_rows = 2,
          rk_b = Some \<lparr> fm_rows = 2, fm_cols = 1, fm_lda = 2, fm_m = [1, 1 / 2] \<rparr>,
          rk_cols = 2, rk_method = AcaFull \<rparr> \<le> 1"
proof -
  have r: "compressWithoutValidation unitSvd (approxWith 1) AcaFull
     (matrixBlock 2 2 (entries [[2, 1], [1, 1]])) =
     Inr \<lparr> rk_a = Some \<lparr> fm_rows = 2, fm_cols = 1, fm_lda = 2, fm_m = [2, 1] \<rparr>,
           rk_rows = 2,
           rk_b = Some \<lparr> fm_rows = 2, fm_cols = 1, fm_lda = 2, fm_m = [1, 1 / 2] \<rparr>,
           rk_cols = 2, rk_method = AcaFull \<rparr>"
    by code_simp
  have s: "assembledShape (matrixBlock 2 2 (entries [[2, 1], [1, 1]]))"
    by code_simp
  from compress_rank_bound [OF r] s r show ?thesis
    by (simp add: approxWith_def)
qed

text \<open>
  Claim C6. For every non-empty Rk that one of the four algorithms returns, factor \<open>A\<close>
  has as many rows as the row cluster has indices, factor \<open>B\<close> as many rows as the column
  cluster, and \<open>A\<close> and \<open>B\<close> have the same number of columns. For \<open>compressAcaFull\<close>,
  which takes the sizes from the assembled block, the kernel's \<open>assemble\<close> is taken to
  return a block of the size of the clusters, as \<open>compressMatrix\<close> asserts.
\<close>

theorem compress_factor_shapes:
  assumes "compressWithoutValidation ext approx meth block = Inr rk"
    and "meth = AcaFull \<longrightarrow> assembledShape block"
    and "\<not> isEmptyRk rk"
  shows "\<exists>A B. rk_a rk = Some A \<and> rk_b rk = Some B \<and>
               fm_rows A = caf_rows block \<and> fm_rows B = caf_cols block \<and>
               fm_cols A = fm_cols B \<and> fm_cols A = rank rk"
  using compressWithoutValidation_shape [OF assms(1,2)] assms(3)
  by (auto simp: isEmptyRk_def rank_def)

theorem compress_factor_shapes_witness:
  "compressWithoutValidation unitSvd (approxWith 0) AcaFull
     (matrixBlock 2 2 (entries [[2, 1], [1, 1]])) =
     Inr \<lparr> rk_a = Some \<lparr> fm_rows = 2, fm_cols = 2, fm_lda = 2, fm_m = [2, 1, 0, 1 / 2] \<rparr>,
           rk_rows = 2,
           rk_b = Some \<lparr> fm_rows = 2, fm_cols = 2, fm_lda = 2, fm_m = [1, 1 / 2, 0, 1] \<rparr>,
           rk_cols = 2, rk_method = AcaFull \<rparr> \<and>
   assembledShape (matrixBlock 2 2 (entries [[2, 1], [1, 1]])) \<and>
   caf_rows (matrixBlock 2 2 (entries [[2, 1], [1, 1]])) = 2 \<and>
   caf_cols (matrixBlock 2 2 (entries [[2, 1], [1, 1]])) = 2"
proof -
  have r: "compressWithoutValidation unitSvd (approxWith 0) AcaFull
     (matrixBlock 2 2 (entries [[2, 1], [1, 1]])) =
     Inr \<lparr> rk_a = Some \<lparr> fm_rows = 2, fm_cols = 2, fm_lda = 2, fm_m = [2, 1, 0, 1 / 2] \<rparr>,
           rk_rows = 2,
           rk_b = Some \<lparr> fm_rows = 2, fm_cols = 2, fm_lda = 2, fm_m = [1, 1 / 2, 0, 1] \<rparr>,
           rk_cols = 2, rk_method = AcaFull \<rparr>"
    by code_simp
  have s: "assembledShape (matrixBlock 2 2 (entries [[2, 1], [1, 1]]))"
    by code_simp
  have e: "\<not> isEmptyRk
     \<lparr> rk_a = Some \<lparr> fm_rows = 2, fm_cols = 2, fm_lda = 2, fm_m = [2, 1, 0, 1 / 2] \<rparr>,
           rk_rows = 2,
           rk_b = Some \<lparr> fm_rows = 2, fm_cols = 2, fm_lda = 2, fm_m = [1, 1 / 2, 0, 1] \<rparr>,
           rk_cols = 2, rk_method = AcaFull \<rparr>"
    by (simp add: isEmptyRk_def)
  from compress_factor_shapes [OF r _ e] s r show ?thesis
    by (auto simp: matrixBlock_def newClusterAssemblyFunction_def)
qed

section \<open>The running estimate and the fallback search\<close>

text \<open>
  Claim C1. Each cross approximation should add to the running estimate the cross terms of
  the new pair with every earlier pair. \<open>compressAcaFull\<close> sums over \<open>l < nu - 1\<close> and so
  leaves out the pair just before the new one: on the block with rows \<open>(2, 1)\<close> and
  \<open>(1, 1)\<close> it stores the pairs \<open>a_0 = (2, 1)\<close>, \<open>b_0 = (1, 1/2)\<close> and \<open>a_1 = (0, 1/2)\<close>,
  \<open>b_1 = (0, 1)\<close> and ends with the estimate \<open>13/2\<close>, where the stated update gives
  \<open>7\<close>, the squared Frobenius norm of the block.
\<close>

theorem acaFull_estimate_misses_last_pair:
  "map_sum id (\<lambda>(nu, st). (nu, fm_m (af_tmpA st), fm_m (af_tmpB st), af_estimateSquaredNorm st))
     (acaFull_run (approxWith 0) (matrixBlock 2 2 (entries [[2, 1], [1, 1]])))
     = Inr (2, [2, 1, 0, 1 / 2], [1, 1 / 2, 0, 1], 13 / 2) \<and>
   specEstimate (specEstimate 0 [2, 1] [1, 1 / 2] [] []) [0, 1 / 2] [0, 1] [[2, 1]] [[1, 1 / 2]]
     = 7"
  by code_simp

text \<open>
  Claim C5. The fallback search of \<open>compressAcaPartial\<close> should always find a free row
  within \<open>0..rows-1\<close>. The search has no bound: when the row it just fetched was the last
  free one it runs past the end of \<open>rowFree\<close>. This happens on a one by one block whose
  entry is zero, and on the two by two zero block.
\<close>

theorem acaPartial_fallback_out_of_range:
  "firstFree [False] 0 = Inl OutOfRange \<and>
   compressAcaPartial (approxWith 0) (matrixBlock 1 1 (entries [[0]])) = Inl OutOfRange \<and>
   compressAcaPartial (approxWith 0) (matrixBlock 2 2 (entries [[0, 0], [0, 0]])) = Inl OutOfRange"
  by code_simp

section \<open>Addressing of the assembled block\<close>

text \<open>
  Claim C10, as stated: with \<open>lda = rows\<close>, \<open>compressMatrix\<close> returns an empty Rk if and
  only if every element of the matrix is zero. The function also returns an empty Rk
  when \<open>findK\<close> selects rank 0: with tolerance 1, the rule of the specification selects
  rank 0 for the one by one matrix \<open>(1)\<close>, which is contiguous and not zero.
\<close>

theorem compressMatrix_empty_counterexample:
  "contiguous \<lparr> fm_rows = 1, fm_cols = 1, fm_lda = 1, fm_m = [1] \<rparr> \<and>
   \<not> allZero \<lparr> fm_rows = 1, fm_cols = 1, fm_lda = 1, fm_m = [1] \<rparr> \<and>
   compressMatrix unitSvd \<lparr> assemblyEpsilon = 1, approx_k = 0 \<rparr>
     \<lparr> fm_rows = 1, fm_cols = 1, fm_lda = 1, fm_m = [1] \<rparr> 1 1
     = Inr \<lparr> rk_a = None, rk_rows = 1, rk_b = None, rk_cols = 1, rk_method = NoCompression \<rparr> \<and>
   isEmptyRk \<lparr> rk_a = None, rk_rows = 1, rk_b = None, rk_cols = 1, rk_method = NoCompression \<rparr>"
  by code_simp

text \<open>
  Claim C10, amended: \<open>compressMatrix\<close>'s zero test and \<open>compressAcaFull\<close>'s copy of the
  pivot column address element \<open>(i, j)\<close> at offset \<open>i + j * rows\<close>. For a contiguous matrix
  with at least one row, the zero test succeeds exactly when every element is zero; an
  all-zero matrix yields the empty Rk, and a matrix that is not all zero yields an empty
  Rk only when \<open>findK\<close> selects rank 0. In a pass of \<open>compressAcaFull\<close> on a contiguous
  residual whose pivot is not zero, column \<open>nu\<close> of \<open>tmpA\<close> is column \<open>j_nu\<close> of the
  residual the pass started from.
\<close>

theorem contiguous_addressing:
  assumes "contiguous M" and "0 < fm_rows M"
  shows "zeroMatrix_from M 0 = Inr (allZero M) \<and>
         (allZero M \<longrightarrow>
            compressMatrix ext approx M (fm_rows M) (fm_cols M)
              = Inr (newRkMatrix None (fm_rows M) None (fm_cols M) NoCompression)) \<and>
         (\<forall>rk. compressMatrix ext approx M (fm_rows M) (fm_cols M) = Inr rk \<and> isEmptyRk rk \<longrightarrow>
            allZero M \<or> svdRank ext approx M = 0) \<and>
         (\<forall>st st' brk i_nu j_nu delta.
            af_m st = M \<and> fm_rows (af_tmpA st) = fm_rows M \<and> fm_lda (af_tmpA st) = fm_rows M \<and>
            acaFull_pivot M = Inr (i_nu, j_nu, delta) \<and> squaredNorm delta \<noteq> 0 \<and>
            acaFull_step epsilon nu st = Inr (st', brk) \<longrightarrow>
            (\<forall>i < fm_rows M. \<exists>x. get (af_tmpA st') i nu = Inr x \<and> get M i j_nu = Inr x))"
proof (intro conjI)
  show "zeroMatrix_from M 0 = Inr (allZero M)"
    using assms by (rule zeroMatrix_from_allZero)
  note t = compressMatrix_zero_test [OF assms refl refl, of ext approx]
  from t show "allZero M \<longrightarrow>
            compressMatrix ext approx M (fm_rows M) (fm_cols M)
              = Inr (newRkMatrix None (fm_rows M) None (fm_cols M) NoCompression)"
    by (rule conjunct1)
  from t show "\<forall>rk. compressMatrix ext approx M (fm_rows M) (fm_cols M) = Inr rk \<and> isEmptyRk rk \<longrightarrow>
            allZero M \<or> svdRank ext approx M = 0"
    by (rule conjunct2)
  show "\<forall>st st' brk i_nu j_nu delta.
            af_m st = M \<and> fm_rows (af_tmpA st) = fm_rows M \<and> fm_lda (af_tmpA st) = fm_rows M \<and>
            acaFull_pivot M = Inr (i_nu, j_nu, delta) \<and> squaredNorm delta \<noteq> 0 \<and>
            acaFull_step epsilon nu st = Inr (st', brk) \<longrightarrow>
            (\<forall>i < fm_rows M. \<exists>x. get (af_tmpA st') i nu = Inr x \<and> get M i j_nu = Inr x)"
  proof (intro allI, rule impI)
    fix st st' brk i_nu j_nu delta
    assume a: "af_m st = M \<and> fm_rows (af_tmpA st) = fm_rows M \<and> fm_lda (af_tmpA st) = fm_rows M \<and>
            acaFull_pivot M = Inr (i_nu, j_nu, delta) \<and> squaredNorm delta \<noteq> 0 \<and>
            acaFull_step epsilon nu st = Inr (st', brk)"
    from assms(1) have l: "fm_lda M = fm_rows M" by (simp add: contiguous_def)
    from a l acaFull_step_pivot_column [of epsilon nu st st' brk i_nu j_nu delta]
    show "\<forall>i < fm_rows M. \<exists>x. get (af_tmpA st') i nu = Inr x \<and> get M i j_nu = Inr x"
      by simp
  qed
qed

theorem contiguous_addressing_witness:
  "contiguous (Zero 1 1) \<and> allZero (Zero 1 1) \<and>
   compressMatrix unitSvd (approxWith 0) (Zero 1 1) 1 1
     = Inr (newRkMatrix None 1 None 1 NoCompression) \<and>
   contiguous \<lparr> fm_rows = 2, fm_cols = 2, fm_lda = 2, fm_m = [2, 1, 1, 1] \<rparr> \<and>
   zeroMatrix_from \<lparr> fm_rows = 2, fm_cols = 2, fm_lda = 2, fm_m = [2, 1, 1, 1] \<rparr> 0 = Inr False \<and>
   get \<lparr> fm_rows = 2, fm_cols = 2, fm_lda = 2, fm_m = [2, 1, 0, 0] \<rparr> 0 0 = Inr 2 \<and>
   get \<lparr> fm_rows = 2, fm_cols = 2, fm_lda = 2, fm_m = [2, 1, 0, 0] \<rparr> 1 0 = Inr 1"
proof -
  let ?M = "\<lparr> fm_rows = 2, fm_cols = 2, fm_lda = 2, fm_m = [2, 1, 1, 1] \<rparr>"
  let ?st' = "\<lparr> af_m = \<lparr> fm_rows = 2, fm_cols = 2, fm_lda = 2, fm_m = [0, 0, 0, 1 / 2] \<rparr>,
               af_tmpA = \<lparr> fm_rows = 2, fm_cols = 2, fm_lda = 2, fm_m = [2, 1, 0, 0] \<rparr>,
               af_tmpB = \<lparr> fm_rows = 2, fm_cols = 2, fm_lda = 2, fm_m = [1, 1 / 2, 0, 0] \<rparr>,
               af_estimateSquaredNorm = 25 / 4 \<rparr>"
  have c0: "contiguous (Zero 1 1)" and p0: "0 < fm_rows (Zero 1 1)"
    by (simp_all add: contiguous_def Zero_def newFullMatrix_def)
  have z0: "allZero (Zero 1 1)"
    by (simp add: allZero_iff Zero_def newFullMatrix_def get_def elem_at_def)
  have c1: "contiguous ?M" and p1: "0 < fm_rows ?M"
    by (simp_all add: contiguous_def)
  have nz: "\<not> allZero ?M"
    by (auto simp: allZero_iff get_def elem_at_def intro!: exI [where x = 0])
  have piv: "acaFull_pivot ?M = Inr (0, 0, 2)"
    by code_simp
  have step: "acaFull_step (1 / 1000) 0 (acaFull_init (approxWith 0) ?M) = Inr (?st', False)"
    by code_simp
  have sq: "squaredNorm 2 \<noteq> 0"
    by (simp add: squaredNorm_def)
  have init: "af_m (acaFull_init (approxWith 0) ?M) = ?M"
    "fm_rows (af_tmpA (acaFull_init (approxWith 0) ?M)) = fm_rows ?M"
    "fm_lda (af_tmpA (acaFull_init (approxWith 0) ?M)) = fm_rows ?M"
    by (simp_all add: acaFull_init_def newFullMatrix_def)
  from contiguous_addressing [OF c0 p0, of unitSvd "approxWith 0"] z0
  have e: "compressMatrix unitSvd (approxWith 0) (Zero 1 1) 1 1
     = Inr (newRkMatrix None 1 None 1 NoCompression)"
    by (simp add: Zero_def newFullMatrix_def)
  from contiguous_addressing [OF c1 p1, of unitSvd "approxWith 0" "1 / 1000" 0] nz
  have zt: "zeroMatrix_from ?M 0 = Inr False"
    and col: "\<forall>st st' brk i_nu j_nu delta.
            af_m st = ?M \<and> fm_rows (af_tmpA st) = fm_rows ?M \<and> fm_lda (af_tmpA st) = fm_rows ?M \<and>
            acaFull_pivot ?M = Inr (i_nu, j_nu, delta) \<and> squaredNorm delta \<noteq> 0 \<and>
            acaFull_step (1 / 1000) 0 st = Inr (st', brk) \<longrightarrow>
            (\<forall>i < fm_rows ?M. \<exists>x. get (af_tmpA st') i 0 = Inr x \<and> get ?M i j_nu = Inr x)"
    by simp_all
  from col init piv sq step
  have "\<forall>i < fm_rows ?M. \<exists>x. get (af_tmpA ?st') i 0 = Inr x \<and> get ?M i 0 = Inr x"
    by blast
  then have g: "get \<lparr> fm_rows = 2, fm_cols = 2, fm_lda = 2, fm_m = [2, 1, 0, 0] \<rparr> 0 0 = Inr 2"
    "get \<lparr> fm_rows = 2, fm_cols = 2, fm_lda = 2, fm_m = [2, 1, 0, 0] \<rparr> 1 0 = Inr 1"
    by (simp_all add: get_def elem_at_def)
  from c0 z0 e c1 zt g show ?thesis by simp
qed

section \<open>All-zero blocks\<close>

text \<open>
  Claim C2, as stated: for every method, an all-zero block yields an empty Rk whose tag is
  the requested method. On the SVD path the empty Rk comes from \<open>compressMatrix\<close>, which
  tags it \<open>NoCompression\<close>.
\<close>

theorem svd_zero_block_tag_counterexample:
  "zeroBlock (matrixBlock 1 1 (entries [])) \<and>
   compressWithoutValidation unitSvd (approxWith 0) Svd (matrixBlock 1 1 (entries []))
     = Inr \<lparr> rk_a = None, rk_rows = 1, rk_b = None, rk_cols = 1, rk_method = NoCompression \<rparr> \<and>
   NoCompression \<noteq> Svd"
  by code_simp

text \<open>
  Claim C2, amended: compressing a block whose every entry is zero (with at least one row
  and one column) returns an empty Rk, both factors absent; its tag is the requested
  method for \<open>AcaFull\<close> and \<open>AcaPlus\<close>, and for \<open>AcaPartial\<close> on a block with more rows
  than columns, and it is \<open>NoCompression\<close> for \<open>Svd\<close>.
\<close>

theorem compress_zero_block:
  assumes "zeroBlock block" and "0 < caf_rows block" and "0 < caf_cols block"
  shows "compressWithoutValidation ext approx Svd block
           = Inr (newRkMatrix None (caf_rows block) None (caf_cols block) NoCompression) \<and>
         compressWithoutValidation ext approx AcaFull block
           = Inr (newRkMatrix None (caf_rows block) None (caf_cols block) AcaFull) \<and>
         compressWithoutValidation ext approx AcaPlus block
           = Inr (newRkMatrix None (caf_rows block) None (caf_cols block) AcaPlus) \<and>
         (caf_cols block < caf_rows block \<longrightarrow>
            compressWithoutValidation ext approx AcaPartial block
              = Inr (newRkMatrix None (caf_rows block) None (caf_cols block) AcaPartial))"
proof (intro conjI impI)
  show "compressWithoutValidation ext approx Svd block
           = Inr (newRkMatrix None (caf_rows block) None (caf_cols block) NoCompression)"
    using compressSvd_zero [OF assms(1,2)] by (simp add: compressWithoutValidation_def)
  from assms(1) have a: "assemble block = Zero (caf_rows block) (caf_cols block)"
    by (simp add: zeroBlock_def)
  show "compressWithoutValidation ext approx AcaFull block
           = Inr (newRkMatrix None (caf_rows block) None (caf_cols block) AcaFull)"
    using compressAcaFull_zero [OF a assms(2,3)] by (simp add: compressWithoutValidation_def)
  show "compressWithoutValidation ext approx AcaPlus block
           = Inr (newRkMatrix None (caf_rows block) None (caf_cols block) AcaPlus)"
    using compressAcaPlus_zero [OF assms(1,2)] by (simp add: compressWithoutValidation_def)
next
  assume "caf_cols block < caf_rows block"
  from compressAcaPartial_zero [OF assms(1,3) this]
  show "compressWithoutValidation ext approx AcaPartial block
              = Inr (newRkMatrix None (caf_rows block) None (caf_cols block) AcaPartial)"
    by (simp add: compressWithoutValidation_def)
qed

theorem compress_zero_block_witness:
  "zeroBlock (matrixBlock 3 2 (entries [])) \<and>
   compressWithoutValidation unitSvd (approxWith 0) Svd (matrixBlock 3 2 (entries []))
     = Inr (newRkMatrix None 3 None 2 NoCompression) \<and>
   compressWithoutValidation unitSvd (approxWith 0) AcaFull (matrixBlock 3 2 (entries []))
     = Inr (newRkMatrix None 3 None 2 AcaFull) \<and>
   compressWithoutValidation unitSvd (approxWith 0) AcaPlus (matrixBlock 3 2 (entries []))
     = Inr (newRkMatrix None 3 None 2 AcaPlus) \<and>
   compressWithoutValidation unitSvd (approxWith 0) AcaPartial (matrixBlock 3 2 (entries []))
     = Inr (newRkMatrix None 3 None 2 AcaPartial)"
proof -
  have z: "zeroBlock (matrixBlock 3 2 (entries []))"
    by code_simp
  have d: "caf_rows (matrixBlock 3 2 (entries [])) = 3" "caf_cols (matrixBlock 3 2 (entries [])) = 2"
    by (simp_all add: matrixBlock_def newClusterAssemblyFunction_def)
  from compress_zero_block [OF z, of unitSvd "approxWith 0"] z show ?thesis
    by (simp add: d)
qed

section \<open>Pivots of the partial cross approximations\<close>













end
